theory Spec2Isabelle
  imports
    Main
    "HOL-Library.Word"
    "HOL-Library.Sublist"
    "HOL-Library.Char_ord"
    "HOL-Library.List_Lexorder"
    "HOL-Library.Multiset"
begin

section \<open>The maintner API service (maintapi/api.go)\<close>

text \<open>
  A shallow embedding of the gRPC handlers of \<^verbatim>\<open>maintapi/api.go\<close>. The corpus
  (package \<^verbatim>\<open>maintner\<close>), the Gerrit client and the clock are collaborators whose
  code lies outside the embedded files: what the handlers read from them is a field of
  a record or an argument of the handler. Go's \<^verbatim>\<open>(value, error)\<close> results are sums,
  \<open>Inl\<close> the error; a panic is an error value of its own.
\<close>

subsection \<open>Data\<close>

type_synonym int32 = "32 word"
type_synonym go_int = "64 word"

text \<open>\<^verbatim>\<open>maintner.GitHash\<close> is a string type: the handlers compare it with \<^verbatim>\<open>""\<close>.\<close>
type_synonym GitHash = string

text \<open>A point in time, in nanoseconds; \<^verbatim>\<open>time.Second\<close> is \<open>10^9\<close>.\<close>
type_synonym Time = int

datatype error = Error string | Panic string

record GitCommit =
  Hash :: GitHash
  Msg :: string

record GerritCL =
  cl_Project :: string           \<comment> \<open>\<^verbatim>\<open>cl.Project.Project()\<close>\<close>
  cl_Branch :: string            \<comment> \<open>\<^verbatim>\<open>cl.Branch()\<close>\<close>
  cl_ChangeID :: string          \<comment> \<open>\<^verbatim>\<open>cl.ChangeID()\<close>\<close>
  cl_Commit :: "GitCommit option"  \<comment> \<open>\<^verbatim>\<open>cl.Commit\<close>, a pointer that may be nil\<close>

text \<open>
  The interface \<^verbatim>\<open>nonChangeRefLister\<close>: the refs on which \<^verbatim>\<open>ForeachNonChangeRef\<close> calls
  its argument, in their sorted order, and the error it returns in the end. The function
  it is given below never fails, so the iteration is never cut short.
\<close>
record nonChangeRefLister =
  lister_refs :: "(string \<times> GitHash) list"
  lister_err :: "error option"

record GerritProject =
  Server :: string
  NumLabelChanges :: go_int
  ForeachNonChangeRef :: nonChangeRefLister
  Ref :: "string \<Rightarrow> GitHash"
    \<comment> \<open>\<^verbatim>\<open>gp.Ref(ref)\<close>: the empty hash when the ref does not exist\<close>
  CL :: "int32 \<Rightarrow> GerritCL option"

record Corpus =
  GitCommit :: "string \<Rightarrow> GitCommit option"
    \<comment> \<open>\<^verbatim>\<open>c.GitCommit(hash)\<close>: nil when the commit is not known\<close>
  commit_HasAncestor :: "GitCommit \<Rightarrow> GitCommit \<Rightarrow> bool"
    \<comment> \<open>\<^verbatim>\<open>commit.HasAncestor(a)\<close>\<close>
  ForeachProjectUnsorted :: "GerritProject list"
    \<comment> \<open>the projects \<^verbatim>\<open>c.Gerrit().ForeachProjectUnsorted\<close> visits\<close>
  Gerrit_Project :: "string \<Rightarrow> string \<Rightarrow> GerritProject option"
    \<comment> \<open>\<^verbatim>\<open>c.Gerrit().Project(server, project)\<close>: nil when unknown\<close>

record HasAncestorRequest =
  req_Commit :: string
  req_Ancestor :: string

record HasAncestorResponse =
  res_HasAncestor :: bool
  res_UnknownCommit :: bool

record GetRefRequest =
  req_GerritServer :: string
  req_GerritProject :: string
  req_Ref :: string

record GetRefResponse =
  res_Value :: string

subsection \<open>HasAncestor\<close>

text \<open>\<^verbatim>\<open>new(apipb.HasAncestorResponse)\<close>: both flags false.\<close>
definition new_HasAncestorResponse :: HasAncestorResponse where
  "new_HasAncestorResponse = \<lparr>res_HasAncestor = False, res_UnknownCommit = False\<rparr>"

definition HasAncestor :: "Corpus \<Rightarrow> HasAncestorRequest \<Rightarrow> error + HasAncestorResponse" where
  "HasAncestor c req =
     (if length (req_Commit req) \<noteq> 40 then Inl (Error ''invalid Commit'')
      else if length (req_Ancestor req) \<noteq> 40 then Inl (Error ''invalid Ancestor'')
      else
        let res = new_HasAncestorResponse in
        (case GitCommit c (req_Commit req) of
           None \<Rightarrow> Inr (res\<lparr>res_UnknownCommit := True\<rparr>)
         | Some commit \<Rightarrow>
             (case GitCommit c (req_Ancestor req) of
                Some a \<Rightarrow> Inr (res\<lparr>res_HasAncestor := commit_HasAncestor c commit a\<rparr>)
              | None \<Rightarrow> Inr res)))"

subsection \<open>GetRef\<close>

text \<open>
  \<^verbatim>\<open>hash.String()\<close> is a method of package \<^verbatim>\<open>maintner\<close>; the handlers take it
  as the argument \<open>hashString\<close>.
\<close>

definition GetRef :: "(GitHash \<Rightarrow> string) \<Rightarrow> Corpus \<Rightarrow> GetRefRequest \<Rightarrow> error + GetRefResponse" where
  "GetRef hashString c req =
     (case Gerrit_Project c (req_GerritServer req) (req_GerritProject req) of
        None \<Rightarrow> Inl (Error ''unknown gerrit project'')
      | Some gp \<Rightarrow>
          let res = \<lparr>res_Value = ''''\<rparr>;
              hash = Ref gp (req_Ref req)
          in if hash \<noteq> '''' then Inr (res\<lparr>res_Value := hashString hash\<rparr>) else Inr res)"

subsection \<open>Version parsing (package version)\<close>

text \<open>
  The package \<^verbatim>\<open>maintapi/version\<close> is not among the embedded files. Its two parsers
  are modelled from section 4.1 of the specification, with the three helpers that
  follow; the functions of \<^verbatim>\<open>api.go\<close> that call them are embedded from the source.
\<close>

definition isDigit :: "char \<Rightarrow> bool" where
  "isDigit ch = (ch \<in> set ''0123456789'')"

definition digitVal :: "char \<Rightarrow> nat" where
  "digitVal ch = of_char ch - 48"

text \<open>A non-empty sequence of decimal digits, read as a number.\<close>
definition parseNumber :: "string \<Rightarrow> nat option" where
  "parseNumber s =
     (if s \<noteq> [] \<and> list_all isDigit s
      then Some (foldl (\<lambda>n ch. 10 * n + digitVal ch) 0 s) else None)"

text \<open>The pieces of a string between its dots.\<close>
fun splitDots :: "string \<Rightarrow> string list" where
  "splitDots [] = [[]]"
| "splitDots (ch # s) =
     (if ch = CHR ''.'' then [] # splitDots s
      else (case splitDots s of [] \<Rightarrow> [[ch]] | p # ps \<Rightarrow> (ch # p) # ps))"

text \<open>
  Modelled from the spec: \<^verbatim>\<open>version.ParseTag\<close> is called by \<^verbatim>\<open>parseTagVersion\<close> and lies
  outside the embedded files. Section 4.1: it "accepts \<^verbatim>\<open>goN\<close>, \<^verbatim>\<open>goN.M\<close>, \<^verbatim>\<open>goN.M.P\<close>;
  missing \<^verbatim>\<open>.M\<close>/\<^verbatim>\<open>.P\<close> default to 0; rejects any suffix (\<^verbatim>\<open>beta\<close>, \<^verbatim>\<open>rc\<close>, arbitrary
  trailing characters)", with \<open>None\<close> for \<^verbatim>\<open>ok=false\<close>.
\<close>
definition version_ParseTag :: "string \<Rightarrow> (nat \<times> nat \<times> nat) option" where
  "version_ParseTag tagName =
     (if \<not> prefix ''go'' tagName then None
      else (case map parseNumber (splitDots (drop 2 tagName)) of
              [Some major] \<Rightarrow> Some (major, 0, 0)
            | [Some major, Some minor] \<Rightarrow> Some (major, minor, 0)
            | [Some major, Some minor, Some patch] \<Rightarrow> Some (major, minor, patch)
            | _ \<Rightarrow> None))"

text \<open>
  Modelled from the spec: \<^verbatim>\<open>version.ParseReleaseBranch\<close> is called by
  \<^verbatim>\<open>parseReleaseBranchVersion\<close> and lies outside the embedded files. Section 4.1: it
  "accepts \<^verbatim>\<open>release-branch.goN\<close> or \<^verbatim>\<open>release-branch.goN.M\<close>; no patch component; any
  other shape is rejected".
\<close>
definition version_ParseReleaseBranch :: "string \<Rightarrow> (nat \<times> nat) option" where
  "version_ParseReleaseBranch branchName =
     (if \<not> prefix ''release-branch.go'' branchName then None
      else (case map parseNumber (splitDots (drop 17 branchName)) of
              [Some major] \<Rightarrow> Some (major, 0)
            | [Some major, Some minor] \<Rightarrow> Some (major, minor)
            | _ \<Rightarrow> None))"

text \<open>The two wrappers of \<^verbatim>\<open>api.go\<close> convert the numbers to \<^verbatim>\<open>int32\<close>.\<close>

definition parseTagVersion :: "string \<Rightarrow> (int32 \<times> int32 \<times> int32) option" where
  "parseTagVersion tagName =
     (case version_ParseTag tagName of
        None \<Rightarrow> None
      | Some (maj, mnr, pat) \<Rightarrow> Some (of_nat maj, of_nat mnr, of_nat pat))"

definition parseReleaseBranchVersion :: "string \<Rightarrow> (int32 \<times> int32) option" where
  "parseReleaseBranchVersion branchName =
     (case version_ParseReleaseBranch branchName of
        None \<Rightarrow> None
      | Some (maj, mnr) \<Rightarrow> Some (of_nat maj, of_nat mnr))"

subsection \<open>sort.Slice\<close>

text \<open>
  \<^verbatim>\<open>sort.Slice\<close> belongs to Go's standard library and promises a permutation ordered by
  \<open>less\<close>, without stability. On a slice of at most 6 elements every release of the
  library runs plain insertion sort: each element in turn is swapped with its left
  neighbour as long as \<open>less\<close> puts it before that neighbour. In \<open>sink\<close> and
  \<open>insertionSort\<close> the part already sorted is held nearest neighbour first.

  On a longer slice the library first moves elements by swaps of its own (a shell pass,
  the partitions of a quicksort), which differ between its releases and decide the order
  of elements that \<open>less\<close> does not separate, and ends with insertion sorts. These
  swaps are the argument \<open>swaps\<close> of \<open>sort_Slice\<close>, pairs of positions applied in
  turn before the insertion sort; a pair that names a position outside the slice moves
  nothing. Every permutation of the slice that is ordered by \<open>less\<close> is the result for
  some swaps (lemma \<open>sort_Slice_complete\<close>), so nothing that the library may return
  is left out.
\<close>

fun sink :: "('a \<Rightarrow> 'a \<Rightarrow> bool) \<Rightarrow> 'a \<Rightarrow> 'a list \<Rightarrow> 'a list" where
  "sink lt x [] = [x]"
| "sink lt x (y # left) = (if lt x y then y # sink lt x left else x # y # left)"

fun insertionSort :: "('a \<Rightarrow> 'a \<Rightarrow> bool) \<Rightarrow> 'a list \<Rightarrow> 'a list \<Rightarrow> 'a list" where
  "insertionSort lt left [] = rev left"
| "insertionSort lt left (x # xs) = insertionSort lt (sink lt x left) xs"

definition swapAt :: "nat \<Rightarrow> nat \<Rightarrow> 'a list \<Rightarrow> 'a list" where
  "swapAt i j xs =
     (if i < length xs \<and> j < length xs then xs[i := xs ! j, j := xs ! i] else xs)"

definition applySwaps :: "(nat \<times> nat) list \<Rightarrow> 'a list \<Rightarrow> 'a list" where
  "applySwaps swaps xs = foldl (\<lambda>zs ij. swapAt (fst ij) (snd ij) zs) xs swaps"

definition sort_Slice :: "(nat \<times> nat) list \<Rightarrow> ('a \<Rightarrow> 'a \<Rightarrow> bool) \<Rightarrow> 'a list \<Rightarrow> 'a list" where
  "sort_Slice swaps lt xs =
     insertionSort lt [] (if length xs \<le> 6 then xs else applySwaps swaps xs)"

text \<open>What the sort needs of its \<open>less\<close>: asymmetry, and transitivity of "not before".\<close>
definition weakOrder :: "('a \<Rightarrow> 'a \<Rightarrow> bool) \<Rightarrow> bool" where
  "weakOrder lt = ((\<forall>a b. lt a b \<longrightarrow> \<not> lt b a)
                  \<and> (\<forall>a b c. \<not> lt a b \<longrightarrow> \<not> lt b c \<longrightarrow> \<not> lt a c))"

subsection \<open>supportedGoReleases\<close>

record GoRelease =
  Major :: int32
  Minor :: int32
  Patch :: int32
  TagName :: string
  TagCommit :: string
  BranchName :: string
  BranchCommit :: string

text \<open>The three struct types local to \<^verbatim>\<open>supportedGoReleases\<close>.\<close>

type_synonym majorMinor = "int32 \<times> int32"

record tag =
  tag_Patch :: int32
  tag_Name :: string
  tag_Commit :: GitHash

record branch =
  branch_Name :: string
  branch_Commit :: GitHash

text \<open>
  The two Go maps are association lists with one entry per key; \<^verbatim>\<open>m[k] = v\<close> replaces
  the entry of \<open>k\<close> or adds one.
\<close>

fun map_store :: "'k \<Rightarrow> 'v \<Rightarrow> ('k \<times> 'v) list \<Rightarrow> ('k \<times> 'v) list" where
  "map_store k v [] = [(k, v)]"
| "map_store k v (p # ps) = (if fst p = k then (k, v) # ps else p # map_store k v ps)"

text \<open>The function literal that \<^verbatim>\<open>ForeachNonChangeRef\<close> calls on each ref; it never fails.\<close>

definition visitRef ::
  "(majorMinor \<times> tag) list \<times> (majorMinor \<times> branch) list \<Rightarrow> string \<times> GitHash
     \<Rightarrow> (majorMinor \<times> tag) list \<times> (majorMinor \<times> branch) list" where
  "visitRef maps rh =
     (case maps of (tags, branches) \<Rightarrow> case rh of (ref, hash) \<Rightarrow>
        if prefix ''refs/tags/go'' ref then
          (let tagName = drop (length ''refs/tags/'') ref in
           case parseTagVersion tagName of
             None \<Rightarrow> (tags, branches)
           | Some (major, minor, patch) \<Rightarrow>
               if (case map_of tags (major, minor) of
                     Some t \<Rightarrow> patch \<le>s tag_Patch t | None \<Rightarrow> False)
               then (tags, branches)
               else (map_store (major, minor)
                       \<lparr>tag_Patch = patch, tag_Name = tagName, tag_Commit = hash\<rparr> tags,
                     branches))
        else if prefix ''refs/heads/release-branch.go'' ref then
          (let branchName = drop (length ''refs/heads/'') ref in
           case parseReleaseBranchVersion branchName of
             None \<Rightarrow> (tags, branches)
           | Some (major, minor) \<Rightarrow>
               (tags,
                map_store (major, minor)
                  \<lparr>branch_Name = branchName, branch_Commit = hash\<rparr> branches))
        else (tags, branches))"

text \<open>The \<open>less\<close> of the final sort: latest version first.\<close>

definition releaseLess :: "GoRelease \<Rightarrow> GoRelease \<Rightarrow> bool" where
  "releaseLess ri rj =
     (if Major ri \<noteq> Major rj then Major rj <s Major ri
      else if Minor ri \<noteq> Minor rj then Minor rj <s Minor ri
      else Patch rj <s Patch ri)"

text \<open>The loop over the tags: a release for each tag whose version has a branch.\<close>

definition releasesOf ::
  "(GitHash \<Rightarrow> string) \<Rightarrow> (majorMinor \<times> tag) list \<Rightarrow> (majorMinor \<times> branch) list
     \<Rightarrow> GoRelease list" where
  "releasesOf hashString tags branches =
     List.map_filter (\<lambda>(v, t).
        case map_of branches v of
          None \<Rightarrow> None
        | Some b \<Rightarrow>
            Some \<lparr>Major = fst v, Minor = snd v, Patch = tag_Patch t,
                  TagName = tag_Name t, TagCommit = hashString (tag_Commit t),
                  BranchName = branch_Name b,
                  BranchCommit = hashString (branch_Commit b)\<rparr>) tags"

text \<open>
  \<open>range tags\<close> visits the map in an unspecified order; the association list fixes one.
  No two releases share a version, so that the sort gives the same list from every
  order, whatever the swaps of the library (lemma \<open>supportedGoReleases_order\<close>).
\<close>

definition supportedGoReleases ::
  "(nat \<times> nat) list \<Rightarrow> (GitHash \<Rightarrow> string) \<Rightarrow> nonChangeRefLister
     \<Rightarrow> error + GoRelease list" where
  "supportedGoReleases swaps hashString goProj =
     (case foldl visitRef ([], []) (lister_refs goProj) of (tags, branches) \<Rightarrow>
        case lister_err goProj of
          Some err \<Rightarrow> Inl err
        | None \<Rightarrow>
            let rs = sort_Slice swaps releaseLess (releasesOf hashString tags branches)
            in if length rs < 2
               then Inl (Error ''there was a problem finding supported Go releases'')
               else Inr (take 2 rs))"

subsection \<open>GoFindTryWork\<close>

record MajorMinor =
  mm_Major :: int32
  mm_Minor :: int32

record GerritTryWorkItem =
  Project :: string
  Branch :: string
  ChangeId :: string
  Commit :: string
  GoCommit :: "string list"
  GoBranch :: "string list"
  GoVersion :: "MajorMinor list"

record GoFindTryWorkResponse =
  Waiting :: "GerritTryWorkItem list"

text \<open>The fields of \<^verbatim>\<open>gerrit.ChangeInfo\<close> that the handler reads.\<close>
record ChangeInfo =
  ci_Project :: string
  ci_ChangeNumber :: go_int
  ci_CurrentRevision :: string

text \<open>The package variable \<^verbatim>\<open>tryCache\<close>; its mutex serialises the calls of the handler.\<close>
record tryCache =
  forNumChanges :: go_int
  lastPoll :: Time
  val :: "GoFindTryWorkResponse option"

text \<open>
  The state that outlives a call: the cache, and the number of queries sent so far
  through the client \<^verbatim>\<open>tryBotGerrit\<close>.
\<close>
record globals =
  g_tryCache :: tryCache
  g_queries :: nat

text \<open>The state at process start: the zero value of \<^verbatim>\<open>tryCache\<close>, no query sent.\<close>
definition globals0 :: globals where
  "globals0 = \<lparr>g_tryCache = \<lparr>forNumChanges = 0, lastPoll = 0, val = None\<rparr>, g_queries = 0\<rparr>"

definition maxPollInterval :: int where
  "maxPollInterval = 15 * 1000000000"

definition TrimPrefix :: "string \<Rightarrow> string \<Rightarrow> string" where
  "TrimPrefix s pre = (if prefix pre s then drop (length pre) s else s)"

text \<open>
  A method of package \<^verbatim>\<open>maintner\<close> that is called on a nil \<^verbatim>\<open>*GerritProject\<close>, and a
  field read through a nil pointer, panic.
\<close>
definition nilPanic :: error where
  "nilPanic = Panic ''invalid memory address or nil pointer dereference''"

definition indexPanic :: error where
  "indexPanic = Panic ''index out of range''"

definition tryWorkItem :: "(GitHash \<Rightarrow> string) \<Rightarrow> GerritCL \<Rightarrow> error + GerritTryWorkItem" where
  "tryWorkItem hashString cl =
     (case cl_Commit cl of
        None \<Rightarrow> Inl nilPanic
      | Some commit \<Rightarrow>
          Inr \<lparr>Project = cl_Project cl,
               Branch = TrimPrefix (cl_Branch cl) ''refs/heads/'',
               ChangeId = cl_ChangeID cl,
               Commit = hashString (Hash commit),
               GoCommit = [], GoBranch = [], GoVersion = []\<rparr>)"

text \<open>The sum over the projects of the server \<^verbatim>\<open>go.googlesource.com\<close>.\<close>
definition sumChanges :: "Corpus \<Rightarrow> go_int" where
  "sumChanges c =
     foldl (\<lambda>s gp. if Server gp \<noteq> ''go.googlesource.com'' then s else s + NumLabelChanges gp)
       0 (ForeachProjectUnsorted c)"

definition versionPair :: "GoRelease \<Rightarrow> MajorMinor" where
  "versionPair r = \<lparr>mm_Major = Major r, mm_Minor = Minor r\<rparr>"

text \<open>\<^verbatim>\<open>supportedReleases[0]\<close>.\<close>
definition firstRelease :: "GoRelease list \<Rightarrow> error + GoRelease" where
  "firstRelease supportedReleases =
     (case supportedReleases of [] \<Rightarrow> Inl indexPanic | latest # _ \<Rightarrow> Inr latest)"

text \<open>
  The body of the loop over the changes that Gerrit returned: \<open>Inr None\<close> where the
  loop continues without a work item (the corpus has no such CL).
\<close>
definition workFor ::
  "(GitHash \<Rightarrow> string) \<Rightarrow> Corpus \<Rightarrow> GerritProject \<Rightarrow> GoRelease list \<Rightarrow> ChangeInfo
     \<Rightarrow> error + GerritTryWorkItem option" where
  "workFor hashString c goProj supportedReleases ci =
     (case Gerrit_Project c ''go.googlesource.com'' (ci_Project ci) of
        None \<Rightarrow> Inl nilPanic
      | Some proj \<Rightarrow>
     (case CL proj (ucast (ci_ChangeNumber ci)) of
        None \<Rightarrow> Inr None
      | Some cl \<Rightarrow>
     (case tryWorkItem hashString cl of
        Inl e \<Rightarrow> Inl e
      | Inr work0 \<Rightarrow>
          let work = (if ci_CurrentRevision ci \<noteq> ''''
                      then work0\<lparr>Commit := ci_CurrentRevision ci\<rparr> else work0)
          in
          if Project work = ''go'' then
            (if Branch work = ''master'' then
               (case firstRelease supportedReleases of
                  Inl e \<Rightarrow> Inl e
                | Inr latest \<Rightarrow> Inr (Some (work\<lparr>GoVersion := [versionPair latest]\<rparr>)))
             else
               (case parseReleaseBranchVersion (Branch work) of
                  Some (major, minor) \<Rightarrow>
                    Inr (Some (work\<lparr>GoVersion := [\<lparr>mm_Major = major, mm_Minor = minor\<rparr>]\<rparr>))
                | None \<Rightarrow>
                    (case firstRelease supportedReleases of
                       Inl e \<Rightarrow> Inl e
                     | Inr latest \<Rightarrow> Inr (Some (work\<lparr>GoVersion := [versionPair latest]\<rparr>)))))
          else
            (case firstRelease supportedReleases of
               Inl e \<Rightarrow> Inl e
             | Inr latest \<Rightarrow>
                 Inr (Some (work
                   \<lparr>GoCommit := hashString (Ref goProj ''refs/heads/master'')
                                  # map BranchCommit supportedReleases,
                    GoBranch := ''master'' # map BranchName supportedReleases,
                    GoVersion := versionPair latest # map versionPair supportedReleases\<rparr>))))))"

text \<open>The loop: \<open>waiting\<close> is \<^verbatim>\<open>res.Waiting\<close> so far; a panic ends it.\<close>
fun collectWaiting ::
  "(ChangeInfo \<Rightarrow> error + GerritTryWorkItem option) \<Rightarrow> GerritTryWorkItem list
     \<Rightarrow> ChangeInfo list \<Rightarrow> error + GerritTryWorkItem list" where
  "collectWaiting body waiting [] = Inr waiting"
| "collectWaiting body waiting (ci # cis) =
     (case body ci of
        Inl e \<Rightarrow> Inl e
      | Inr None \<Rightarrow> collectWaiting body waiting cis
      | Inr (Some work) \<Rightarrow> collectWaiting body (waiting @ [work]) cis)"

text \<open>The \<open>less\<close> of the final sort: Go compares strings byte by byte.\<close>
definition commitLess :: "GerritTryWorkItem \<Rightarrow> GerritTryWorkItem \<Rightarrow> bool" where
  "commitLess wi wj = (Commit wi < Commit wj)"

text \<open>
  The handler past its cache check: the poll. \<open>now\<close> is what \<^verbatim>\<open>time.Now()\<close> returned,
  \<open>numChanges\<close> the local \<^verbatim>\<open>sumChanges\<close>, and \<open>queryChanges\<close> what the call
  \<^verbatim>\<open>tryBotGerrit.QueryChanges\<close> returns within its timeout of 10 seconds.
\<close>
definition pollTryWork ::
  "(nat \<times> nat) list \<Rightarrow> (nat \<times> nat) list \<Rightarrow> (GitHash \<Rightarrow> string) \<Rightarrow> Corpus \<Rightarrow> Time \<Rightarrow> go_int \<Rightarrow> error + ChangeInfo list \<Rightarrow> globals
     \<Rightarrow> (error + GoFindTryWorkResponse) \<times> globals" where
  "pollTryWork relSwaps workSwaps hashString c now numChanges queryChanges g =
     (let g = g\<lparr>g_tryCache := (g_tryCache g)\<lparr>lastPoll := now\<rparr>\<rparr>;
          g = g\<lparr>g_queries := g_queries g + 1\<rparr>
      in
      case queryChanges of
        Inl err \<Rightarrow> (Inl err, g)
      | Inr cis \<Rightarrow>
          let g = g\<lparr>g_tryCache := (g_tryCache g)\<lparr>forNumChanges := numChanges\<rparr>\<rparr> in
          (case Gerrit_Project c ''go.googlesource.com'' ''go'' of
             None \<Rightarrow> (Inl nilPanic, g)
           | Some goProj \<Rightarrow>
          (case supportedGoReleases relSwaps hashString (ForeachNonChangeRef goProj) of
             Inl err \<Rightarrow> (Inl err, g)
           | Inr supportedReleases \<Rightarrow>
          (case collectWaiting (workFor hashString c goProj supportedReleases) [] cis of
             Inl e \<Rightarrow> (Inl e, g)
           | Inr waiting \<Rightarrow>
               let res = \<lparr>Waiting = sort_Slice workSwaps commitLess waiting\<rparr> in
               (Inr res, g\<lparr>g_tryCache := (g_tryCache g)\<lparr>val := Some res\<rparr>\<rparr>)))))"

text \<open>
  The handler. A \<open>Time\<close> stands for a reading of the clock in nanoseconds:
  \<^verbatim>\<open>t.After(u)\<close> is \<open>u < t\<close> and \<^verbatim>\<open>t.Add(d)\<close> is \<open>t + d\<close>.
\<close>
definition GoFindTryWork ::
  "(nat \<times> nat) list \<Rightarrow> (nat \<times> nat) list \<Rightarrow> (GitHash \<Rightarrow> string) \<Rightarrow> Corpus \<Rightarrow> Time \<Rightarrow> error + ChangeInfo list \<Rightarrow> globals
     \<Rightarrow> (error + GoFindTryWorkResponse) \<times> globals" where
  "GoFindTryWork relSwaps workSwaps hashString c now queryChanges g =
     (let numChanges = sumChanges c in
      case val (g_tryCache g) of
        None \<Rightarrow> pollTryWork relSwaps workSwaps hashString c now numChanges queryChanges g
      | Some cached \<Rightarrow>
          if forNumChanges (g_tryCache g) = numChanges
             \<or> now + (- maxPollInterval) < lastPoll (g_tryCache g)
          then (Inr cached, g)
          else pollTryWork relSwaps workSwaps hashString c now numChanges queryChanges g)"

subsection \<open>Notions of the specification\<close>

definition isHexDigit :: "char \<Rightarrow> bool" where
  "isHexDigit ch = (ch \<in> set ''0123456789abcdefABCDEF'')"

text \<open>The specification's "exactly 40 hexadecimal characters".\<close>
definition isHex40 :: "string \<Rightarrow> bool" where
  "isHex40 s = (length s = 40 \<and> list_all isHexDigit s)"

definition isError :: "error + 'a \<Rightarrow> bool" where
  "isError r = (case r of Inl _ \<Rightarrow> True | Inr _ \<Rightarrow> False)"

subsection \<open>Notions of the specification: complete releases\<close>

text \<open>The version of a ref that is a well-formed release tag.\<close>
definition tagVersionOf :: "string \<Rightarrow> majorMinor option" where
  "tagVersionOf ref =
     (if prefix ''refs/tags/go'' ref
      then (case parseTagVersion (drop (length ''refs/tags/'') ref) of
              None \<Rightarrow> None | Some (major, minor, patch) \<Rightarrow> Some (major, minor))
      else None)"

text \<open>The version of a ref that is a well-formed release branch.\<close>
definition branchVersionOf :: "string \<Rightarrow> majorMinor option" where
  "branchVersionOf ref =
     (if prefix ''refs/heads/release-branch.go'' ref
      then parseReleaseBranchVersion (drop (length ''refs/heads/'') ref)
      else None)"

definition tagVersions :: "(string \<times> GitHash) list \<Rightarrow> majorMinor list" where
  "tagVersions refs = List.map_filter (\<lambda>rh. tagVersionOf (fst rh)) refs"

definition branchVersions :: "(string \<times> GitHash) list \<Rightarrow> majorMinor list" where
  "branchVersions refs = List.map_filter (\<lambda>rh. branchVersionOf (fst rh)) refs"

text \<open>The version and the patch number of a ref that is a well-formed release tag.\<close>
definition tagPatchOf :: "string \<Rightarrow> (majorMinor \<times> int32) option" where
  "tagPatchOf ref =
     (if prefix ''refs/tags/go'' ref
      then (case parseTagVersion (drop (length ''refs/tags/'') ref) of
              None \<Rightarrow> None | Some (major, minor, patch) \<Rightarrow> Some ((major, minor), patch))
      else None)"

definition tagPatches :: "(string \<times> GitHash) list \<Rightarrow> (majorMinor \<times> int32) list" where
  "tagPatches refs = List.map_filter (\<lambda>rh. tagPatchOf (fst rh)) refs"

text \<open>
  What a ref that is a well-formed release tag gives to a release: version, patch
  number, tag name and commit.
\<close>
definition tagRefOf :: "string \<times> GitHash \<Rightarrow> (majorMinor \<times> int32 \<times> string \<times> GitHash) option" where
  "tagRefOf rh =
     (case tagPatchOf (fst rh) of
        None \<Rightarrow> None
      | Some (v, patch) \<Rightarrow> Some (v, patch, drop (length ''refs/tags/'') (fst rh), snd rh))"

definition tagRefs :: "(string \<times> GitHash) list \<Rightarrow> (majorMinor \<times> int32 \<times> string \<times> GitHash) list" where
  "tagRefs refs = List.map_filter tagRefOf refs"

text \<open>
  What a ref that is a well-formed release branch gives to a release: version, branch
  name and commit.
\<close>
definition branchRefOf :: "string \<times> GitHash \<Rightarrow> (majorMinor \<times> string \<times> GitHash) option" where
  "branchRefOf rh =
     (case branchVersionOf (fst rh) of
        None \<Rightarrow> None
      | Some v \<Rightarrow> Some (v, drop (length ''refs/heads/'') (fst rh), snd rh))"

definition branchRefs :: "(string \<times> GitHash) list \<Rightarrow> (majorMinor \<times> string \<times> GitHash) list" where
  "branchRefs refs = List.map_filter branchRefOf refs"

text \<open>
  The complete releases of a ref set: the versions that have both a tag and a release
  branch, each once.
\<close>
definition completeVersions :: "(string \<times> GitHash) list \<Rightarrow> majorMinor list" where
  "completeVersions refs =
     remdups (filter (\<lambda>v. v \<in> set (branchVersions refs)) (tagVersions refs))"

text \<open>Versions compared as signed numbers, major first.\<close>
definition versionLess :: "majorMinor \<Rightarrow> majorMinor \<Rightarrow> bool" where
  "versionLess v w = (fst v <s fst w \<or> (fst v = fst w \<and> snd v <s snd w))"

definition versionOf :: "GoRelease \<Rightarrow> majorMinor" where
  "versionOf r = (Major r, Minor r)"

subsection \<open>Notions of the specification: the try-work cache\<close>

text \<open>
  The condition of step 3 of \<^verbatim>\<open>GetTryWork\<close>: a cached result exists, and the change
  count equals the snapshot or less than the poll interval has elapsed since the last
  poll.
\<close>
definition cacheHit :: "Corpus \<Rightarrow> Time \<Rightarrow> globals \<Rightarrow> bool" where
  "cacheHit c now g =
     (val (g_tryCache g) \<noteq> None
      \<and> (forNumChanges (g_tryCache g) = sumChanges c
         \<or> now - lastPoll (g_tryCache g) < maxPollInterval))"

text \<open>The cached work list, if there is one, is in ascending order of its commits.\<close>
definition cacheSorted :: "globals \<Rightarrow> bool" where
  "cacheSorted g =
     (case val (g_tryCache g) of None \<Rightarrow> True | Some res \<Rightarrow> sorted (map Commit (Waiting res)))"

text \<open>What an iteration of the loop adds to the work list.\<close>
definition produced ::
  "(ChangeInfo \<Rightarrow> error + GerritTryWorkItem option) \<Rightarrow> ChangeInfo \<Rightarrow> GerritTryWorkItem option" where
  "produced body ci = (case body ci of Inl e \<Rightarrow> None | Inr r \<Rightarrow> r)"

text \<open>Concrete inputs used to exercise the theorems.\<close>

definition commitA :: GitCommit where
  "commitA = \<lparr>Hash = ''A'', Msg = ''first''\<rparr>"

definition commitB :: GitCommit where
  "commitB = \<lparr>Hash = ''B'', Msg = ''second''\<rparr>"

definition hashA :: string where
  "hashA = replicate 40 CHR ''a''"

definition hashB :: string where
  "hashB = replicate 40 CHR ''b''"

definition hashZ :: string where
  "hashZ = replicate 40 CHR ''z''"

definition fixtureRefs :: "(string \<times> GitHash) list" where
  "fixtureRefs =
     [(''refs/heads/master'', ''m''),
      (''refs/heads/release-branch.go1.11'', ''b11''),
      (''refs/heads/release-branch.go1.12'', ''b12''),
      (''refs/tags/go1.11'', ''t11''),
      (''refs/tags/go1.12'', ''t12''),
      (''refs/tags/go1.12.1'', ''t121'')]"

definition onePairRefs :: "(string \<times> GitHash) list" where
  "onePairRefs =
     [(''refs/heads/master'', ''m''),
      (''refs/heads/release-branch.go1.12'', ''b12''),
      (''refs/tags/go1.11'', ''t11''),
      (''refs/tags/go1.12'', ''t12'')]"

definition clMaster :: GerritCL where
  "clMaster = \<lparr>cl_Project = ''go'', cl_Branch = ''refs/heads/master'', cl_ChangeID = ''I01'',
     cl_Commit = Some \<lparr>Hash = ''c1'', Msg = ''on master''\<rparr>\<rparr>"

definition clRelease :: GerritCL where
  "clRelease = \<lparr>cl_Project = ''go'', cl_Branch = ''refs/heads/release-branch.go1.11'',
     cl_ChangeID = ''I02'', cl_Commit = Some \<lparr>Hash = ''c1'', Msg = ''on 1.11''\<rparr>\<rparr>"

definition clDev :: GerritCL where
  "clDev = \<lparr>cl_Project = ''go'', cl_Branch = ''refs/heads/dev.boringcrypto'', cl_ChangeID = ''I03'',
     cl_Commit = Some \<lparr>Hash = ''c0'', Msg = ''on dev''\<rparr>\<rparr>"

definition projGo :: GerritProject where
  "projGo = \<lparr>Server = ''go.googlesource.com'', NumLabelChanges = 7,
     ForeachNonChangeRef = \<lparr>lister_refs = fixtureRefs, lister_err = None\<rparr>,
     Ref = (\<lambda>r. if r = ''refs/heads/master'' then ''M'' else []),
     CL = (\<lambda>n. if n = 1 then Some clMaster else if n = 2 then Some clRelease
                else if n = 3 then Some clDev else None)\<rparr>"

text \<open>A project whose refs hold a single complete release.\<close>
definition projOne :: GerritProject where
  "projOne = projGo\<lparr>ForeachNonChangeRef := \<lparr>lister_refs = onePairRefs, lister_err = None\<rparr>\<rparr>"

definition corpus0 :: Corpus where
  "corpus0 = \<lparr>GitCommit = (\<lambda>h. if h = hashA then Some commitA
                               else if h = hashB then Some commitB else None),
     commit_HasAncestor = (\<lambda>x y. Hash x = ''B'' \<and> Hash y = ''A''),
     ForeachProjectUnsorted = [projGo],
     Gerrit_Project = (\<lambda>s p. if s = ''go.googlesource.com'' \<and> p = ''go'' then Some projGo else None)\<rparr>"

definition corpusOne :: Corpus where
  "corpusOne = corpus0\<lparr>ForeachProjectUnsorted := [projOne],
     Gerrit_Project := (\<lambda>s p. if s = ''go.googlesource.com'' \<and> p = ''go'' then Some projOne else None)\<rparr>"

definition change :: "go_int \<Rightarrow> ChangeInfo" where
  "change n = \<lparr>ci_Project = ''go'', ci_ChangeNumber = n, ci_CurrentRevision = []\<rparr>"

text \<open>A state whose cache was filled at time 100 for 7 label changes.\<close>
definition globalsHit :: globals where
  "globalsHit = \<lparr>g_tryCache = \<lparr>forNumChanges = 7, lastPoll = 100, val = Some \<lparr>Waiting = []\<rparr>\<rparr>,
     g_queries = 1\<rparr>"

text \<open>A state whose cache was filled at time 100 for 5 label changes.\<close>
definition globalsStale :: globals where
  "globalsStale = \<lparr>g_tryCache = \<lparr>forNumChanges = 5, lastPoll = 100, val = Some \<lparr>Waiting = []\<rparr>\<rparr>,
     g_queries = 1\<rparr>"

definition rel112 :: GoRelease where
  "rel112 = \<lparr>Major = 1, Minor = 12, Patch = 1, TagName = ''go1.12.1'', TagCommit = ''t121'',
     BranchName = ''release-branch.go1.12'', BranchCommit = ''b12''\<rparr>"

definition rel111 :: GoRelease where
  "rel111 = \<lparr>Major = 1, Minor = 11, Patch = 0, TagName = ''go1.11'', TagCommit = ''t11'',
     BranchName = ''release-branch.go1.11'', BranchCommit = ''b11''\<rparr>"

text \<open>The work items of the three changes of \<open>projGo\<close>.\<close>

definition itemMaster :: GerritTryWorkItem where
  "itemMaster = \<lparr>Project = ''go'', Branch = ''master'', ChangeId = ''I01'', Commit = ''c1'',
     GoCommit = [], GoBranch = [], GoVersion = [\<lparr>mm_Major = 1, mm_Minor = 12\<rparr>]\<rparr>"

definition itemRelease :: GerritTryWorkItem where
  "itemRelease = \<lparr>Project = ''go'', Branch = ''release-branch.go1.11'', ChangeId = ''I02'',
     Commit = ''c1'', GoCommit = [], GoBranch = [],
     GoVersion = [\<lparr>mm_Major = 1, mm_Minor = 11\<rparr>]\<rparr>"

definition itemDev :: GerritTryWorkItem where
  "itemDev = \<lparr>Project = ''go'', Branch = ''dev.boringcrypto'', ChangeId = ''I03'',
     Commit = ''c0'', GoCommit = [], GoBranch = [],
     GoVersion = [\<lparr>mm_Major = 1, mm_Minor = 12\<rparr>]\<rparr>"

section \<open>Theorems\<close>

lemma length_hashes [simp]: "length hashA = 40" "length hashB = 40" "length hashZ = 40"
  by (simp_all add: hashA_def hashB_def hashZ_def)

lemma hashes_distinct [simp]: "hashA \<noteq> hashB" "hashB \<noteq> hashA" "hashZ \<noteq> hashA" "hashZ \<noteq> hashB"
  by (simp_all add: hashA_def hashB_def hashZ_def replicate_eq_replicate)

subsection \<open>HasAncestor: validation and result\<close>

lemma HasAncestor_valid:
  assumes "length (req_Commit req) = 40" and "length (req_Ancestor req) = 40"
  shows "HasAncestor c req =
     Inr \<lparr>res_HasAncestor =
            (case GitCommit c (req_Commit req) of None \<Rightarrow> False
             | Some commit \<Rightarrow>
                 (case GitCommit c (req_Ancestor req) of None \<Rightarrow> False
                  | Some a \<Rightarrow> commit_HasAncestor c commit a)),
          res_UnknownCommit = (GitCommit c (req_Commit req) = None)\<rparr>"
  using assms
  by (simp add: HasAncestor_def new_HasAncestorResponse_def split: option.splits)

lemma HasAncestor_invalid:
  assumes "length (req_Commit req) \<noteq> 40 \<or> length (req_Ancestor req) \<noteq> 40"
  shows "HasAncestor c req = Inl (Error ''invalid Commit'')
       \<or> HasAncestor c req = Inl (Error ''invalid Ancestor'')"
  using assms by (auto simp: HasAncestor_def)

text \<open>
  C5, as amended. The call fails with a validation error if and only if one of the two
  arguments is not exactly 40 bytes long; the characters are not inspected. For every
  pair of 40-byte arguments the call succeeds: \<open>UnknownCommit\<close> reports that the
  commit is not known, and otherwise \<open>HasAncestor\<close> tells whether the ancestor is a
  known commit that is a git ancestor of the commit.
\<close>

theorem C5_HasAncestor_validation:
  "(isError (HasAncestor c req)
      \<longleftrightarrow> length (req_Commit req) \<noteq> 40 \<or> length (req_Ancestor req) \<noteq> 40)
   \<and> (length (req_Commit req) = 40 \<and> length (req_Ancestor req) = 40 \<longrightarrow>
        HasAncestor c req =
          Inr \<lparr>res_HasAncestor =
                 (case GitCommit c (req_Commit req) of None \<Rightarrow> False
                  | Some commit \<Rightarrow>
                      (case GitCommit c (req_Ancestor req) of None \<Rightarrow> False
                       | Some a \<Rightarrow> commit_HasAncestor c commit a)),
               res_UnknownCommit = (GitCommit c (req_Commit req) = None)\<rparr>)"
proof (cases "length (req_Commit req) = 40 \<and> length (req_Ancestor req) = 40")
  case True
  then show ?thesis
    using HasAncestor_valid [of req c] by (simp add: isError_def)
next
  case False
  then show ?thesis
    using HasAncestor_invalid [of req c] by (auto simp: isError_def)
qed

theorem C5_HasAncestor_validation_witness:
  "HasAncestor corpus0 \<lparr>req_Commit = hashB, req_Ancestor = hashA\<rparr>
     = Inr \<lparr>res_HasAncestor = True, res_UnknownCommit = False\<rparr>
   \<and> isError (HasAncestor corpus0 \<lparr>req_Commit = ''abc'', req_Ancestor = hashA\<rparr>)"
  using C5_HasAncestor_validation [of corpus0 "\<lparr>req_Commit = hashB, req_Ancestor = hashA\<rparr>"]
    C5_HasAncestor_validation [of corpus0 "\<lparr>req_Commit = ''abc'', req_Ancestor = hashA\<rparr>"]
  by (simp add: corpus0_def commitA_def commitB_def)

text \<open>
  C5 as stated fails: a 40-character argument that is not hexadecimal passes the
  validation, so "not exactly 40 hexadecimal characters" does not imply an error.
\<close>

theorem C5_HasAncestor_nonhex_counterexample:
  "\<not> (isError (HasAncestor corpus0 \<lparr>req_Commit = hashZ, req_Ancestor = hashZ\<rparr>)
        \<longleftrightarrow> \<not> isHex40 hashZ \<or> \<not> isHex40 hashZ)"
proof -
  have "\<not> isHex40 hashZ"
    by (simp add: isHex40_def hashZ_def isHexDigit_def list_all_iff)
  moreover have "\<not> isError (HasAncestor corpus0 \<lparr>req_Commit = hashZ, req_Ancestor = hashZ\<rparr>)"
    by (simp add: HasAncestor_def isError_def corpus0_def new_HasAncestorResponse_def)
  ultimately show ?thesis by simp
qed

text \<open>
  C10. When both arguments are 40 characters long, the commit is known and the ancestor
  is not, the call succeeds with \<open>HasAncestor = False\<close> and \<open>UnknownCommit = False\<close>:
  the flag \<open>UnknownCommit\<close> reports on the commit argument only.
\<close>

theorem C10_HasAncestor_unknown_ancestor:
  assumes "length (req_Commit req) = 40" and "length (req_Ancestor req) = 40"
    and "GitCommit c (req_Commit req) = Some commit"
    and "GitCommit c (req_Ancestor req) = None"
  shows "HasAncestor c req = Inr \<lparr>res_HasAncestor = False, res_UnknownCommit = False\<rparr>"
  using assms by (simp add: HasAncestor_def new_HasAncestorResponse_def)

theorem C10_HasAncestor_unknown_ancestor_witness:
  "length hashA = 40 \<and> length hashZ = 40
   \<and> GitCommit corpus0 hashA = Some commitA \<and> GitCommit corpus0 hashZ = None
   \<and> HasAncestor corpus0 \<lparr>req_Commit = hashA, req_Ancestor = hashZ\<rparr>
       = Inr \<lparr>res_HasAncestor = False, res_UnknownCommit = False\<rparr>"
proof -
  have k: "GitCommit corpus0 hashA = Some commitA" and u: "GitCommit corpus0 hashZ = None"
    by (simp_all add: corpus0_def)
  show ?thesis
    using C10_HasAncestor_unknown_ancestor
      [of "\<lparr>req_Commit = hashA, req_Ancestor = hashZ\<rparr>" corpus0 commitA] k u
    by simp
qed

subsection \<open>GetRef: unknown project against unknown ref\<close>

text \<open>
  C8. A request naming an unknown project returns a lookup error. For a known project,
  a ref that does not exist (the project resolves it to the empty hash) gives a
  successful, empty response, and an existing ref gives the resolved hash in its
  string form.
\<close>

theorem C8_GetRef_discrimination:
  "(Gerrit_Project c (req_GerritServer req) (req_GerritProject req) = None \<longrightarrow>
      GetRef hashString c req = Inl (Error ''unknown gerrit project''))
   \<and> (\<forall>gp. Gerrit_Project c (req_GerritServer req) (req_GerritProject req) = Some gp \<longrightarrow>
        (Ref gp (req_Ref req) = '''' \<longrightarrow> GetRef hashString c req = Inr \<lparr>res_Value = ''''\<rparr>)
      \<and> (Ref gp (req_Ref req) \<noteq> '''' \<longrightarrow>
           GetRef hashString c req = Inr \<lparr>res_Value = hashString (Ref gp (req_Ref req))\<rparr>))"
  by (simp add: GetRef_def)

theorem C8_GetRef_discrimination_witness:
  "GetRef id corpus0 \<lparr>req_GerritServer = ''go.googlesource.com'', req_GerritProject = ''nope'',
       req_Ref = ''refs/heads/master''\<rparr> = Inl (Error ''unknown gerrit project'')
   \<and> GetRef id corpus0 \<lparr>req_GerritServer = ''go.googlesource.com'', req_GerritProject = ''go'',
       req_Ref = ''refs/heads/none''\<rparr> = Inr \<lparr>res_Value = ''''\<rparr>
   \<and> GetRef id corpus0 \<lparr>req_GerritServer = ''go.googlesource.com'', req_GerritProject = ''go'',
       req_Ref = ''refs/heads/master''\<rparr> = Inr \<lparr>res_Value = ''M''\<rparr>"
  using
    C8_GetRef_discrimination [of corpus0 "\<lparr>req_GerritServer = ''go.googlesource.com'',
       req_GerritProject = ''nope'', req_Ref = ''refs/heads/master''\<rparr>" id]
    C8_GetRef_discrimination [of corpus0 "\<lparr>req_GerritServer = ''go.googlesource.com'',
       req_GerritProject = ''go'', req_Ref = ''refs/heads/none''\<rparr>" id]
    C8_GetRef_discrimination [of corpus0 "\<lparr>req_GerritServer = ''go.googlesource.com'',
       req_GerritProject = ''go'', req_Ref = ''refs/heads/master''\<rparr>" id]
  by (simp add: corpus0_def projGo_def)

subsection \<open>Facts about the ref maps\<close>

lemma keys_map_store: "fst ` set (map_store k v al) = insert k (fst ` set al)"
  by (induction al) auto

lemma distinct_map_store:
  "distinct (map fst al) \<Longrightarrow> distinct (map fst (map_store k v al))"
  by (induction al) (auto simp: keys_map_store)

lemma map_of_Some_key: "map_of al k = Some v \<Longrightarrow> k \<in> fst ` set al"
  by (induction al) (auto split: if_splits)

lemma prefixes_exclusive:
  "prefix ''refs/tags/go'' ref \<Longrightarrow> \<not> prefix ''refs/heads/release-branch.go'' ref"
  by (auto simp: prefix_def)

lemma visitRef_tags:
  "fst ` set (fst (visitRef (T, B) rh))
     = fst ` set T \<union> (case tagVersionOf (fst rh) of None \<Rightarrow> {} | Some v \<Rightarrow> {v})"
  by (cases rh)
     (auto simp: visitRef_def tagVersionOf_def keys_map_store Let_def
           dest: map_of_Some_key split: option.splits)

lemma visitRef_branches:
  "fst ` set (snd (visitRef (T, B) rh))
     = fst ` set B \<union> (case branchVersionOf (fst rh) of None \<Rightarrow> {} | Some v \<Rightarrow> {v})"
  by (cases rh)
     (auto simp: visitRef_def branchVersionOf_def keys_map_store Let_def prefixes_exclusive
           split: option.splits)

lemma visitRef_distinct:
  "distinct (map fst T) \<Longrightarrow> distinct (map fst B) \<Longrightarrow>
   distinct (map fst (fst (visitRef (T, B) rh))) \<and> distinct (map fst (snd (visitRef (T, B) rh)))"
  by (cases rh)
     (auto simp: visitRef_def Let_def distinct_map_store split: option.splits)

lemma tagVersions_Cons:
  "set (tagVersions (rh # refs))
     = (case tagVersionOf (fst rh) of None \<Rightarrow> {} | Some v \<Rightarrow> {v}) \<union> set (tagVersions refs)"
  by (simp add: tagVersions_def List.map_filter_simps split: option.splits)

lemma branchVersions_Cons:
  "set (branchVersions (rh # refs))
     = (case branchVersionOf (fst rh) of None \<Rightarrow> {} | Some v \<Rightarrow> {v}) \<union> set (branchVersions refs)"
  by (simp add: branchVersions_def List.map_filter_simps split: option.splits)

lemma foldl_visitRef:
  assumes "distinct (map fst T)" and "distinct (map fst B)"
    and "foldl visitRef (T, B) refs = (T', B')"
  shows "fst ` set T' = fst ` set T \<union> set (tagVersions refs)
       \<and> fst ` set B' = fst ` set B \<union> set (branchVersions refs)
       \<and> distinct (map fst T') \<and> distinct (map fst B')"
  using assms
proof (induction refs arbitrary: T B)
  case Nil
  then show ?case by (simp add: tagVersions_def branchVersions_def List.map_filter_simps)
next
  case (Cons rh refs)
  obtain T1 B1 where step: "visitRef (T, B) rh = (T1, B1)"
    by (cases "visitRef (T, B) rh")
  have d: "distinct (map fst T1)" "distinct (map fst B1)"
    using visitRef_distinct [OF Cons.prems(1,2), of rh] step by simp_all
  have kT: "fst ` set T1 = fst ` set T \<union> (case tagVersionOf (fst rh) of None \<Rightarrow> {} | Some v \<Rightarrow> {v})"
    using visitRef_tags [of T B rh] step by simp
  have kB: "fst ` set B1 = fst ` set B \<union> (case branchVersionOf (fst rh) of None \<Rightarrow> {} | Some v \<Rightarrow> {v})"
    using visitRef_branches [of T B rh] step by simp
  have "foldl visitRef (T1, B1) refs = (T', B')"
    using Cons.prems(3) step by simp
  from Cons.IH [OF d this] show ?case
    unfolding kT kB tagVersions_Cons branchVersions_Cons by (simp add: Un_assoc)
qed

lemma releasesOf_versions:
  "versionOf ` set (releasesOf hs T B) = fst ` set T \<inter> fst ` set B"
proof (induction T)
  case Nil
  then show ?case by (simp add: releasesOf_def List.map_filter_simps)
next
  case (Cons p T)
  have unf: "releasesOf hs (p # T) B =
      (case map_of B (fst p) of None \<Rightarrow> releasesOf hs T B
       | Some b \<Rightarrow> \<lparr>Major = fst (fst p), Minor = snd (fst p), Patch = tag_Patch (snd p),
                  TagName = tag_Name (snd p), TagCommit = hs (tag_Commit (snd p)),
                  BranchName = branch_Name b, BranchCommit = hs (branch_Commit b)\<rparr>
                # releasesOf hs T B)"
    by (cases p) (simp add: releasesOf_def List.map_filter_simps split: option.splits)
  show ?case
  proof (cases "map_of B (fst p)")
    case None
    then have "fst p \<notin> fst ` set B" by (simp add: map_of_eq_None_iff)
    with None Cons.IH show ?thesis unfolding unf by auto
  next
    case (Some b)
    then have "fst p \<in> fst ` set B" by (rule map_of_Some_key)
    with Some Cons.IH show ?thesis unfolding unf by (auto simp: versionOf_def)
  qed
qed

lemma releasesOf_Cons:
  "releasesOf hs (p # T) B =
      (case map_of B (fst p) of None \<Rightarrow> releasesOf hs T B
       | Some b \<Rightarrow> \<lparr>Major = fst (fst p), Minor = snd (fst p), Patch = tag_Patch (snd p),
                  TagName = tag_Name (snd p), TagCommit = hs (tag_Commit (snd p)),
                  BranchName = branch_Name b, BranchCommit = hs (branch_Commit b)\<rparr>
                # releasesOf hs T B)"
  by (cases p) (simp add: releasesOf_def List.map_filter_simps split: option.splits)

lemma releasesOf_distinct:
  "distinct (map fst T) \<Longrightarrow> distinct (map versionOf (releasesOf hs T B))"
proof (induction T)
  case Nil
  then show ?case by (simp add: releasesOf_def List.map_filter_simps)
next
  case (Cons p T)
  have "fst p \<notin> versionOf ` set (releasesOf hs T B)"
    using Cons.prems by (simp add: releasesOf_versions)
  with Cons show ?case
    unfolding releasesOf_Cons by (auto simp: versionOf_def split: option.splits)
qed

subsection \<open>Facts about sort.Slice\<close>

lemma mset_sink: "mset (sink lt x left) = add_mset x (mset left)"
  by (induction left) auto

lemma mset_insertionSort: "mset (insertionSort lt left xs) = mset left + mset xs"
  by (induction xs arbitrary: left) (auto simp: mset_sink)

lemma mset_swapAt: "mset (swapAt i j xs) = mset xs"
  unfolding swapAt_def using mset_swap [of j xs i] by simp

lemma mset_applySwaps: "mset (applySwaps swaps xs) = mset xs"
  unfolding applySwaps_def by (induction swaps arbitrary: xs) (simp_all add: mset_swapAt)

lemma mset_sort_Slice: "mset (sort_Slice swaps lt xs) = mset xs"
  by (simp add: sort_Slice_def mset_insertionSort mset_applySwaps)

lemma set_sink: "set (sink lt x left) = insert x (set left)"
  by (induction left) auto

lemma sorted_sink:
  assumes "weakOrder lt" and "sorted_wrt (\<lambda>a b. \<not> lt a b) left"
  shows "sorted_wrt (\<lambda>a b. \<not> lt a b) (sink lt x left)"
proof -
  have asym: "\<not> lt b a" if "lt a b" for a b
    using assms(1) that unfolding weakOrder_def by blast
  have ntrans: "\<not> lt a c" if "\<not> lt a b" and "\<not> lt b c" for a b c
    using assms(1) that unfolding weakOrder_def by blast
  show ?thesis
    using assms(2)
  proof (induction left)
    case Nil
    then show ?case by simp
  next
    case (Cons y left)
    have tl: "sorted_wrt (\<lambda>a b. \<not> lt a b) left" and hd: "\<forall>z\<in>set left. \<not> lt y z"
      using Cons.prems by simp_all
    show ?case
    proof (cases "lt x y")
      case True
      have "\<not> lt y x" using True by (rule asym)
      then show ?thesis
        using True hd Cons.IH [OF tl] by (simp add: set_sink)
    next
      case False
      have "\<not> lt x z" if "z \<in> set left" for z
        using ntrans [OF False] hd that by blast
      then show ?thesis
        using False Cons.prems by simp
    qed
  qed
qed

lemma sorted_insertionSort:
  assumes "weakOrder lt" and "sorted_wrt (\<lambda>a b. \<not> lt a b) left"
  shows "sorted_wrt (\<lambda>a b. \<not> lt b a) (insertionSort lt left xs)"
  using assms(2)
proof (induction xs arbitrary: left)
  case Nil
  then show ?case by (simp add: sorted_wrt_rev)
next
  case (Cons x xs)
  then show ?case using sorted_sink [OF assms(1)] by simp
qed

lemma sorted_sort_Slice:
  "weakOrder lt \<Longrightarrow> sorted_wrt (\<lambda>a b. \<not> lt b a) (sort_Slice swaps lt xs)"
  by (simp add: sort_Slice_def sorted_insertionSort)

lemma sorted_wrt_mset_unique:
  assumes "mset xs = mset ys"
    and "sorted_wrt S xs" and "sorted_wrt S ys"
    and "\<And>a b. a \<in> set xs \<Longrightarrow> b \<in> set xs \<Longrightarrow> S a b \<Longrightarrow> S b a \<Longrightarrow> a = b"
  shows "xs = ys"
  using assms
proof (induction xs arbitrary: ys)
  case Nil
  then show ?case by simp
next
  case (Cons x xs)
  have "length ys = Suc (length xs)"
    using mset_eq_length [OF Cons.prems(1)] by simp
  then obtain y ys' where ys: "ys = y # ys'"
    by (cases ys) simp_all
  have sets: "set (x # xs) = set ys"
    using Cons.prems(1) by (rule mset_eq_setD)
  have "x = y"
  proof (rule ccontr)
    assume ne: "x \<noteq> y"
    have "x \<in> set ys'" using sets ys ne by auto
    then have 1: "S y x" using Cons.prems(3) ys by simp
    have "y \<in> set xs" using sets ys ne by auto
    then have 2: "S x y" using Cons.prems(2) by simp
    have "y \<in> set (x # xs)" using sets ys by simp
    with 1 2 Cons.prems(4) [of x y] ne show False by simp
  qed
  moreover have "xs = ys'"
  proof (rule Cons.IH)
    show "mset xs = mset ys'" using Cons.prems(1) ys \<open>x = y\<close> by simp
    show "sorted_wrt S xs" using Cons.prems(2) by simp
    show "sorted_wrt S ys'" using Cons.prems(3) ys by simp
    show "\<And>a b. a \<in> set xs \<Longrightarrow> b \<in> set xs \<Longrightarrow> S a b \<Longrightarrow> S b a \<Longrightarrow> a = b"
      using Cons.prems(4) by simp
  qed
  ultimately show ?case using ys by simp
qed

lemma set_sort_Slice: "set (sort_Slice swaps lt xs) = set xs"
  using mset_sort_Slice [of swaps lt xs] by (rule mset_eq_setD)

lemma sort_Slice_permutation:
  assumes "weakOrder lt" and "mset xs = mset ys"
    and "\<And>a b. a \<in> set xs \<Longrightarrow> b \<in> set xs \<Longrightarrow> \<not> lt a b \<Longrightarrow> \<not> lt b a \<Longrightarrow> a = b"
  shows "sort_Slice swaps lt xs = sort_Slice swaps' lt ys"
proof (rule sorted_wrt_mset_unique [where S = "\<lambda>a b. \<not> lt b a"])
  show "mset (sort_Slice swaps lt xs) = mset (sort_Slice swaps' lt ys)"
    using assms(2) by (simp add: mset_sort_Slice)
  show "sorted_wrt (\<lambda>a b. \<not> lt b a) (sort_Slice swaps lt xs)"
    using assms(1) by (rule sorted_sort_Slice)
  show "sorted_wrt (\<lambda>a b. \<not> lt b a) (sort_Slice swaps' lt ys)"
    using assms(1) by (rule sorted_sort_Slice)
  fix a b
  assume "a \<in> set (sort_Slice swaps lt xs)" "b \<in> set (sort_Slice swaps lt xs)" "\<not> lt b a" "\<not> lt a b"
  moreover have "set (sort_Slice swaps lt xs) = set xs"
    using mset_sort_Slice [of swaps lt xs] by (rule mset_eq_setD)
  ultimately show "a = b" using assms(3) by simp
qed

text \<open>An ordered slice is left as it is.\<close>

lemma insertionSort_ordered:
  assumes "sorted_wrt (\<lambda>a b. \<not> lt b a) (rev left @ xs)"
  shows "insertionSort lt left xs = rev left @ xs"
  using assms
proof (induction xs arbitrary: left)
  case Nil
  then show ?case by simp
next
  case (Cons x xs)
  have "sink lt x left = x # left"
    using Cons.prems by (cases left) (simp_all add: sorted_wrt_append)
  moreover have "sorted_wrt (\<lambda>a b. \<not> lt b a) (rev (x # left) @ xs)"
    using Cons.prems by simp
  ultimately show ?case
    using Cons.IH [of "x # left"] by simp
qed

lemma swapAt_Cons: "swapAt (Suc i) (Suc j) (y # zs) = y # swapAt i j zs"
  by (simp add: swapAt_def)

lemma applySwaps_Cons:
  "applySwaps (map (\<lambda>ij. (Suc (fst ij), Suc (snd ij))) swaps) (y # zs) = y # applySwaps swaps zs"
  unfolding applySwaps_def by (induction swaps arbitrary: zs) (simp_all add: swapAt_Cons)

lemma applySwaps_Cons_swap:
  "applySwaps (ij # swaps) xs = applySwaps swaps (swapAt (fst ij) (snd ij) xs)"
  by (simp add: applySwaps_def)

lemma swapAt_front:
  assumes "i < length xs"
  shows "\<exists>zs. swapAt 0 i xs = xs ! i # zs"
proof (cases xs)
  case Nil
  with assms show ?thesis by simp
next
  case (Cons x xs')
  with assms show ?thesis
    by (cases i) (simp_all add: swapAt_def)
qed

lemma applySwaps_complete:
  assumes "mset xs = mset ys"
  shows "\<exists>swaps. applySwaps swaps xs = ys"
  using assms
proof (induction ys arbitrary: xs)
  case Nil
  then have "applySwaps [] xs = []" by (simp add: applySwaps_def)
  then show ?case by blast
next
  case (Cons y ys)
  have "y \<in> set xs"
    using Cons.prems by (metis list.set_intros(1) mset_eq_setD)
  then obtain i where i: "i < length xs" "xs ! i = y"
    by (auto simp: in_set_conv_nth)
  from swapAt_front [OF i(1)] obtain zs where zs: "swapAt 0 i xs = y # zs"
    using i(2) by auto
  have "mset (y # zs) = mset xs"
    using mset_swapAt [of 0 i xs] zs by simp
  then have "mset zs = mset ys"
    using Cons.prems by simp
  from Cons.IH [OF this] obtain sw where sw: "applySwaps sw zs = ys" by blast
  have "applySwaps ((0, i) # map (\<lambda>ij. (Suc (fst ij), Suc (snd ij))) sw) xs = y # ys"
    by (simp add: applySwaps_Cons_swap zs applySwaps_Cons sw)
  then show ?case by blast
qed

text \<open>Every permutation ordered by \<open>less\<close> is a result of the model on a long slice.\<close>

lemma sort_Slice_complete:
  assumes "mset ys = mset xs" and "sorted_wrt (\<lambda>a b. \<not> lt b a) ys" and "6 < length xs"
  shows "\<exists>swaps. sort_Slice swaps lt xs = ys"
proof -
  from applySwaps_complete [OF assms(1) [symmetric]] obtain sw
    where sw: "applySwaps sw xs = ys" by blast
  have "insertionSort lt [] ys = rev [] @ ys"
    by (rule insertionSort_ordered) (simp add: assms(2))
  then have "sort_Slice sw lt xs = ys"
    using assms(3) by (simp add: sort_Slice_def sw)
  then show ?thesis by blast
qed

lemma mset_map_filter:
  "mset (List.map_filter f xs) = image_mset (\<lambda>x. the (f x)) (filter_mset (\<lambda>x. f x \<noteq> None) (mset xs))"
  by (simp add: List.map_filter_def comp_def)

lemma map_filter_mset_cong:
  "mset xs = mset ys \<Longrightarrow> mset (List.map_filter f xs) = mset (List.map_filter f ys)"
  by (simp add: mset_map_filter)

lemma distinct_map_inj:
  assumes "distinct (map f xs)" and "a \<in> set xs" and "b \<in> set xs" and "f a = f b"
  shows "a = b"
proof -
  have "inj_on f (set xs)" using assms(1) by (simp add: distinct_map)
  then show ?thesis using assms(2-4) by (simp add: inj_on_def)
qed

lemma int32_eq_sint: "(x = y) = (sint x = sint y)" for x y :: int32
  by (auto intro: signed_word_eqI)

lemma releaseLess_sint:
  "releaseLess a b =
     (sint (Major b) < sint (Major a)
      \<or> (sint (Major a) = sint (Major b)
          \<and> (sint (Minor b) < sint (Minor a)
              \<or> (sint (Minor a) = sint (Minor b) \<and> sint (Patch b) < sint (Patch a)))))"
  unfolding releaseLess_def word_sless_alt
    int32_eq_sint [of "Major a" "Major b"] int32_eq_sint [of "Minor a" "Minor b"]
  by auto

lemma versionLess_sint:
  "versionLess v w =
     (sint (fst v) < sint (fst w) \<or> (sint (fst v) = sint (fst w) \<and> sint (snd v) < sint (snd w)))"
  unfolding versionLess_def word_sless_alt int32_eq_sint [of "fst v" "fst w"]
  by simp

lemma weakOrder_releaseLess: "weakOrder releaseLess"
  unfolding weakOrder_def releaseLess_sint by auto

lemma versionOf_eq_sint:
  "(versionOf a = versionOf b) =
     (sint (Major a) = sint (Major b) \<and> sint (Minor a) = sint (Minor b))"
  by (simp add: versionOf_def int32_eq_sint [symmetric])

lemma not_releaseLess_versionLess:
  assumes "versionOf a \<noteq> versionOf b" and "\<not> releaseLess b a"
  shows "versionLess (versionOf b) (versionOf a)"
  using assms unfolding versionOf_eq_sint releaseLess_sint versionLess_sint
  by (auto simp: versionOf_def)

subsection \<open>The patch of a release, and the order of the map iteration\<close>

lemma map_of_map_store: "map_of (map_store k v al) = (map_of al)(k \<mapsto> v)"
  by (induction al) (auto simp: fun_eq_iff)

lemma tagVersionOf_tagPatchOf: "tagVersionOf ref = map_option fst (tagPatchOf ref)"
  by (simp add: tagVersionOf_def tagPatchOf_def split: option.splits)

lemma tagVersions_tagPatches: "tagVersions refs = map fst (tagPatches refs)"
  by (induction refs)
     (simp_all add: tagVersions_def tagPatches_def List.map_filter_simps tagVersionOf_tagPatchOf
        split: option.splits)

lemma tagPatches_snoc:
  "tagPatches (refs @ [rh])
     = tagPatches refs @ (case tagPatchOf (fst rh) of None \<Rightarrow> [] | Some vp \<Rightarrow> [vp])"
  by (simp add: tagPatches_def List.map_filter_def split: option.splits)

lemma visitRef_tag_cases:
  "fst (visitRef (T, B) (ref, hash)) =
     (case tagPatchOf ref of
        None \<Rightarrow> T
      | Some (v, patch) \<Rightarrow>
          if (case map_of T v of Some t \<Rightarrow> patch \<le>s tag_Patch t | None \<Rightarrow> False) then T
          else map_store v \<lparr>tag_Patch = patch, tag_Name = drop (length ''refs/tags/'') ref,
                            tag_Commit = hash\<rparr> T)"
  by (auto simp: visitRef_def tagPatchOf_def Let_def split: option.splits)

lemma foldl_visitRef_patch:
  assumes "foldl visitRef ([], []) refs = (T, B)" and "map_of T v = Some t"
  shows "(v, tag_Patch t) \<in> set (tagPatches refs)
       \<and> (\<forall>p. (v, p) \<in> set (tagPatches refs) \<longrightarrow> p \<le>s tag_Patch t)"
  using assms
proof (induction refs arbitrary: T B t rule: rev_induct)
  case Nil
  then show ?case by simp
next
  case (snoc rh refs)
  obtain T1 B1 where pre: "foldl visitRef ([], []) refs = (T1, B1)"
    by (cases "foldl visitRef ([], []) refs")
  obtain ref hash where rh: "rh = (ref, hash)" by (cases rh)
  have T: "T = fst (visitRef (T1, B1) (ref, hash))"
    using snoc.prems(1) pre rh by simp
  have keys: "fst ` set T1 = fst ` set (tagPatches refs)"
    using foldl_visitRef [OF _ _ pre] by (simp add: tagVersions_tagPatches)
  note IH = snoc.IH [OF pre]
  show ?case
  proof (cases "tagPatchOf ref")
    case None
    then have "T = T1" using T by (simp add: visitRef_tag_cases)
    with IH [of t] snoc.prems(2) None rh show ?thesis
      by (simp add: tagPatches_snoc)
  next
    case (Some vp)
    obtain k patch where vp: "vp = (k, patch)" by (cases vp)
    have snoc_set: "set (tagPatches (refs @ [rh])) = insert (k, patch) (set (tagPatches refs))"
      using Some vp rh by (simp add: tagPatches_snoc)
    show ?thesis
    proof (cases "case map_of T1 k of Some t0 \<Rightarrow> patch \<le>s tag_Patch t0 | None \<Rightarrow> False")
      case True
      then obtain t0 where t0: "map_of T1 k = Some t0" "patch \<le>s tag_Patch t0"
        by (auto split: option.splits)
      have "T = T1" using T Some vp True by (simp add: visitRef_tag_cases)
      with IH [of t] snoc.prems(2) t0 show ?thesis
        unfolding snoc_set by auto
    next
      case False
      have Tst: "T = map_store k \<lparr>tag_Patch = patch, tag_Name = drop (length ''refs/tags/'') ref,
                            tag_Commit = hash\<rparr> T1"
        using T Some vp False by (simp add: visitRef_tag_cases)
      show ?thesis
      proof (cases "v = k")
        case neq: False
        then have "map_of T1 v = Some t"
          using snoc.prems(2) unfolding Tst by (simp add: map_of_map_store)
        from IH [OF this] neq show ?thesis
          unfolding snoc_set by auto
      next
        case eq: True
        then have t: "tag_Patch t = patch"
          using snoc.prems(2) unfolding Tst by (auto simp: map_of_map_store)
        have "p \<le>s patch" if "(k, p) \<in> set (tagPatches refs)" for p
        proof -
          from that have "k \<in> fst ` set T1"
            unfolding keys by force
          then obtain t0 where t0: "map_of T1 k = Some t0"
            by (cases "map_of T1 k") (auto simp: map_of_eq_None_iff)
          with False have "tag_Patch t0 <s patch"
            by (simp add: signed.not_le)
          moreover have "map_of T1 v = Some t0"
            using t0 eq by simp
          from IH [OF this] have "p \<le>s tag_Patch t0"
            using that eq by blast
          ultimately show ?thesis
            by (meson signed.less_imp_le signed.order_trans)
        qed
        with t eq show ?thesis
          unfolding snoc_set by auto
      qed
    qed
  qed
qed

lemma releasesOf_patch:
  assumes "r \<in> set (releasesOf hs T B)"
  shows "\<exists>t. (versionOf r, t) \<in> set T \<and> Patch r = tag_Patch t"
  using assms
proof (induction T)
  case Nil
  then show ?case by (simp add: releasesOf_def List.map_filter_simps)
next
  case (Cons p T)
  then show ?case
    unfolding releasesOf_Cons
    by (cases p) (auto simp: versionOf_def split: option.splits)
qed

lemma release_highest_patch:
  assumes fold: "foldl visitRef ([], []) refs = (T, B)"
    and r: "r \<in> set (sort_Slice swaps releaseLess (releasesOf hs T B))"
  shows "(versionOf r, Patch r) \<in> set (tagPatches refs)
       \<and> (\<forall>p. (versionOf r, p) \<in> set (tagPatches refs) \<longrightarrow> p \<le>s Patch r)"
proof -
  have "r \<in> set (releasesOf hs T B)"
    using r by (simp add: set_sort_Slice)
  then obtain t where t: "(versionOf r, t) \<in> set T" "Patch r = tag_Patch t"
    using releasesOf_patch by blast
  have "distinct (map fst T)"
    using foldl_visitRef [OF _ _ fold] by simp
  then have "map_of T (versionOf r) = Some t"
    using t(1) by simp
  from foldl_visitRef_patch [OF fold this] t(2) show ?thesis by simp
qed

lemma releaseLess_total:
  "versionOf a \<noteq> versionOf b \<Longrightarrow> releaseLess a b \<or> releaseLess b a"
  unfolding versionOf_eq_sint releaseLess_sint by auto

lemma supportedGoReleases_order:
  assumes "distinct (map fst tags)" and "mset tags' = mset tags"
  shows "sort_Slice swaps' releaseLess (releasesOf hs tags' branches)
       = sort_Slice swaps releaseLess (releasesOf hs tags branches)"
proof (rule sort_Slice_permutation [OF weakOrder_releaseLess])
  show "mset (releasesOf hs tags' branches) = mset (releasesOf hs tags branches)"
    unfolding releasesOf_def using assms(2) by (rule map_filter_mset_cong)
  have "mset (map fst tags') = mset (map fst tags)"
    using assms(2) by simp
  from mset_eq_imp_distinct_iff [OF this] have "distinct (map fst tags')"
    using assms(1) by simp
  then have d: "distinct (map versionOf (releasesOf hs tags' branches))"
    by (rule releasesOf_distinct)
  fix a b
  assume ab: "a \<in> set (releasesOf hs tags' branches)" "b \<in> set (releasesOf hs tags' branches)"
    and "\<not> releaseLess a b" "\<not> releaseLess b a"
  then have "versionOf a = versionOf b"
    using releaseLess_total [of a b] by blast
  with d ab show "a = b" by (rule distinct_map_inj)
qed

subsection \<open>The tag and the branch of a release\<close>

lemma tagRefs_snoc:
  "tagRefs (refs @ [rh]) = tagRefs refs @ (case tagRefOf rh of None \<Rightarrow> [] | Some x \<Rightarrow> [x])"
  by (simp add: tagRefs_def List.map_filter_def split: option.splits)

lemma branchRefs_snoc:
  "branchRefs (refs @ [rh])
     = branchRefs refs @ (case branchRefOf rh of None \<Rightarrow> [] | Some x \<Rightarrow> [x])"
  by (simp add: branchRefs_def List.map_filter_def split: option.splits)

lemma visitRef_branch_cases:
  "snd (visitRef (T, B) (ref, hash)) =
     (case branchVersionOf ref of
        None \<Rightarrow> B
      | Some v \<Rightarrow>
          map_store v \<lparr>branch_Name = drop (length ''refs/heads/'') ref, branch_Commit = hash\<rparr> B)"
  by (auto simp: visitRef_def branchVersionOf_def Let_def prefixes_exclusive split: option.splits)

lemma foldl_visitRef_tag:
  assumes "foldl visitRef ([], []) refs = (T, B)" and "map_of T v = Some t"
  shows "(v, tag_Patch t, tag_Name t, tag_Commit t) \<in> set (tagRefs refs)"
  using assms
proof (induction refs arbitrary: T B t rule: rev_induct)
  case Nil
  then show ?case by simp
next
  case (snoc rh refs)
  obtain T1 B1 where pre: "foldl visitRef ([], []) refs = (T1, B1)"
    by (cases "foldl visitRef ([], []) refs")
  obtain ref hash where rh: "rh = (ref, hash)" by (cases rh)
  have T: "T = fst (visitRef (T1, B1) (ref, hash))"
    using snoc.prems(1) pre rh by simp
  note IH = snoc.IH [OF pre]
  show ?case
  proof (cases "tagPatchOf ref")
    case None
    then have "T = T1" using T by (simp add: visitRef_tag_cases)
    with IH [of t] snoc.prems(2) show ?thesis
      by (simp add: tagRefs_snoc)
  next
    case (Some vp)
    obtain k patch where vp: "vp = (k, patch)" by (cases vp)
    have new: "tagRefOf rh = Some (k, patch, drop (length ''refs/tags/'') ref, hash)"
      using Some vp rh by (simp add: tagRefOf_def)
    show ?thesis
    proof (cases "case map_of T1 k of Some t0 \<Rightarrow> patch \<le>s tag_Patch t0 | None \<Rightarrow> False")
      case True
      then have "T = T1" using T Some vp by (simp add: visitRef_tag_cases)
      with IH [of t] snoc.prems(2) show ?thesis
        by (simp add: tagRefs_snoc)
    next
      case False
      have Tst: "T = map_store k \<lparr>tag_Patch = patch, tag_Name = drop (length ''refs/tags/'') ref,
                            tag_Commit = hash\<rparr> T1"
        using T Some vp False by (simp add: visitRef_tag_cases)
      show ?thesis
      proof (cases "v = k")
        case True
        then have "t = \<lparr>tag_Patch = patch, tag_Name = drop (length ''refs/tags/'') ref,
                            tag_Commit = hash\<rparr>"
          using snoc.prems(2) unfolding Tst by (simp add: map_of_map_store)
        with True new show ?thesis
          by (simp add: tagRefs_snoc)
      next
        case neq: False
        then have "map_of T1 v = Some t"
          using snoc.prems(2) unfolding Tst by (simp add: map_of_map_store)
        from IH [OF this] show ?thesis
          by (simp add: tagRefs_snoc)
      qed
    qed
  qed
qed

lemma foldl_visitRef_branch:
  assumes "foldl visitRef ([], []) refs = (T, B)" and "map_of B v = Some br"
  shows "(v, branch_Name br, branch_Commit br) \<in> set (branchRefs refs)"
  using assms
proof (induction refs arbitrary: T B br rule: rev_induct)
  case Nil
  then show ?case by simp
next
  case (snoc rh refs)
  obtain T1 B1 where pre: "foldl visitRef ([], []) refs = (T1, B1)"
    by (cases "foldl visitRef ([], []) refs")
  obtain ref hash where rh: "rh = (ref, hash)" by (cases rh)
  have B: "B = snd (visitRef (T1, B1) (ref, hash))"
    using snoc.prems(1) pre rh by simp
  note IH = snoc.IH [OF pre]
  show ?case
  proof (cases "branchVersionOf ref")
    case None
    then have "B = B1" using B by (simp add: visitRef_branch_cases)
    with IH [of br] snoc.prems(2) show ?thesis
      by (simp add: branchRefs_snoc)
  next
    case (Some k)
    have new: "branchRefOf rh = Some (k, drop (length ''refs/heads/'') ref, hash)"
      using Some rh by (simp add: branchRefOf_def)
    have Bst: "B = map_store k
        \<lparr>branch_Name = drop (length ''refs/heads/'') ref, branch_Commit = hash\<rparr> B1"
      using B Some by (simp add: visitRef_branch_cases)
    show ?thesis
    proof (cases "v = k")
      case True
      then have "br = \<lparr>branch_Name = drop (length ''refs/heads/'') ref, branch_Commit = hash\<rparr>"
        using snoc.prems(2) unfolding Bst by (simp add: map_of_map_store)
      with True new show ?thesis
        by (simp add: branchRefs_snoc)
    next
      case False
      then have "map_of B1 v = Some br"
        using snoc.prems(2) unfolding Bst by (simp add: map_of_map_store)
      from IH [OF this] show ?thesis
        by (simp add: branchRefs_snoc)
    qed
  qed
qed

lemma releasesOf_fields:
  assumes "r \<in> set (releasesOf hs T B)"
  shows "\<exists>t br. (versionOf r, t) \<in> set T \<and> map_of B (versionOf r) = Some br
          \<and> Patch r = tag_Patch t \<and> TagName r = tag_Name t \<and> TagCommit r = hs (tag_Commit t)
          \<and> BranchName r = branch_Name br \<and> BranchCommit r = hs (branch_Commit br)"
  using assms
proof (induction T)
  case Nil
  then show ?case by (simp add: releasesOf_def List.map_filter_simps)
next
  case (Cons p T)
  then show ?case
    unfolding releasesOf_Cons
    by (cases p) (auto simp: versionOf_def split: option.splits)
qed

lemma release_from_refs:
  assumes fold: "foldl visitRef ([], []) refs = (T, B)"
    and r: "r \<in> set (sort_Slice swaps releaseLess (releasesOf hs T B))"
  shows "\<exists>tagHash branchHash.
           (versionOf r, Patch r, TagName r, tagHash) \<in> set (tagRefs refs)
           \<and> TagCommit r = hs tagHash
           \<and> (versionOf r, BranchName r, branchHash) \<in> set (branchRefs refs)
           \<and> BranchCommit r = hs branchHash"
proof -
  have "r \<in> set (releasesOf hs T B)"
    using r by (simp add: set_sort_Slice)
  from releasesOf_fields [OF this] obtain t br where
    t: "(versionOf r, t) \<in> set T" and br: "map_of B (versionOf r) = Some br"
    and f: "Patch r = tag_Patch t" "TagName r = tag_Name t" "TagCommit r = hs (tag_Commit t)"
      "BranchName r = branch_Name br" "BranchCommit r = hs (branch_Commit br)"
    by blast
  have "distinct (map fst T)"
    using foldl_visitRef [OF _ _ fold] by simp
  then have "map_of T (versionOf r) = Some t"
    using t by simp
  from foldl_visitRef_tag [OF fold this] foldl_visitRef_branch [OF fold br] f
  show ?thesis by auto
qed

subsection \<open>supportedGoReleases: two releases or an error\<close>

lemma set_completeVersions:
  "set (completeVersions refs) = set (tagVersions refs) \<inter> set (branchVersions refs)"
  by (auto simp: completeVersions_def)

lemma sorted_releases:
  assumes fold: "foldl visitRef ([], []) refs = (T, B)"
    and rs: "rs = sort_Slice swaps releaseLess (releasesOf hs T B)"
  shows "versionOf ` set rs = set (completeVersions refs)"
    and "distinct (map versionOf rs)"
    and "length rs = length (completeVersions refs)"
    and "sorted_wrt (\<lambda>a b. \<not> releaseLess b a) rs"
proof -
  have inv: "fst ` set T = set (tagVersions refs)" "fst ` set B = set (branchVersions refs)"
      "distinct (map fst T)"
    using foldl_visitRef [OF _ _ fold] by simp_all
  have m: "mset rs = mset (releasesOf hs T B)"
    unfolding rs by (rule mset_sort_Slice)
  have s: "set rs = set (releasesOf hs T B)"
    using m by (rule mset_eq_setD)
  show v: "versionOf ` set rs = set (completeVersions refs)"
    unfolding s releasesOf_versions inv set_completeVersions ..
  have "mset (map versionOf rs) = mset (map versionOf (releasesOf hs T B))"
    using m by simp
  then show d: "distinct (map versionOf rs)"
    using releasesOf_distinct [OF inv(3), of hs B] by (metis mset_eq_imp_distinct_iff)
  have "length rs = card (versionOf ` set rs)"
    using d distinct_card [of "map versionOf rs"] by simp
  also have "\<dots> = card (set (completeVersions refs))"
    unfolding v ..
  also have "\<dots> = length (completeVersions refs)"
    unfolding completeVersions_def by (rule distinct_card) simp
  finally show "length rs = length (completeVersions refs)" .
  show "sorted_wrt (\<lambda>a b. \<not> releaseLess b a) rs"
    unfolding rs using weakOrder_releaseLess by (rule sorted_sort_Slice)
qed

lemma supportedGoReleases_unfold:
  assumes "foldl visitRef ([], []) (lister_refs l) = (T, B)"
  shows "supportedGoReleases swaps hs l =
     (case lister_err l of
        Some err \<Rightarrow> Inl err
      | None \<Rightarrow>
          if length (sort_Slice swaps releaseLess (releasesOf hs T B)) < 2
          then Inl (Error ''there was a problem finding supported Go releases'')
          else Inr (take 2 (sort_Slice swaps releaseLess (releasesOf hs T B))))"
  using assms by (simp add: supportedGoReleases_def Let_def split: option.splits)

lemma take2: "2 \<le> length xs \<Longrightarrow> \<exists>a b rest. xs = a # b # rest \<and> take 2 xs = [a, b]"
  by (cases xs; cases "tl xs") (auto simp: numeral_2_eq_2)

text \<open>
  C2. \<open>supportedGoReleases\<close> never returns an empty or singleton list: the result is an
  error or a list of exactly two releases. A ref set with fewer than two complete
  (tag and branch) releases gives an error; with at least two, and no error from the
  enumeration itself, the call succeeds. On success the two releases are the top two
  complete releases: both are complete, the first is later than the second, and every
  other complete release is earlier than the second; each carries the highest patch
  number among the tags of its version. The tag name and tag commit of each are those of
  one tag ref with this version and patch number, and its branch name and branch commit
  those of one release branch ref with this version, the commits in their string form.
  All this holds whatever the swaps of the library's sort.
\<close>

theorem C2_supportedGoReleases_two:
  "(isError (supportedGoReleases swaps hs l)
      \<or> (\<exists>r1 r2. supportedGoReleases swaps hs l = Inr [r1, r2]))
   \<and> (length (completeVersions (lister_refs l)) < 2 \<longrightarrow> isError (supportedGoReleases swaps hs l))
   \<and> (lister_err l = None \<and> 2 \<le> length (completeVersions (lister_refs l)) \<longrightarrow>
        \<not> isError (supportedGoReleases swaps hs l))
   \<and> (\<forall>rs. supportedGoReleases swaps hs l = Inr rs \<longrightarrow>
        (\<exists>r1 r2. rs = [r1, r2]
           \<and> versionOf r1 \<in> set (completeVersions (lister_refs l))
           \<and> versionOf r2 \<in> set (completeVersions (lister_refs l))
           \<and> versionLess (versionOf r2) (versionOf r1)
           \<and> (\<forall>v \<in> set (completeVersions (lister_refs l)).
                 v = versionOf r1 \<or> v = versionOf r2 \<or> versionLess v (versionOf r2))))
   \<and> (\<forall>rs r. supportedGoReleases swaps hs l = Inr rs \<and> r \<in> set rs \<longrightarrow>
        (versionOf r, Patch r) \<in> set (tagPatches (lister_refs l))
        \<and> (\<forall>p. (versionOf r, p) \<in> set (tagPatches (lister_refs l)) \<longrightarrow> p \<le>s Patch r))
   \<and> (\<forall>rs r. supportedGoReleases swaps hs l = Inr rs \<and> r \<in> set rs \<longrightarrow>
        (\<exists>tagHash branchHash.
           (versionOf r, Patch r, TagName r, tagHash) \<in> set (tagRefs (lister_refs l))
           \<and> TagCommit r = hs tagHash
           \<and> (versionOf r, BranchName r, branchHash) \<in> set (branchRefs (lister_refs l))
           \<and> BranchCommit r = hs branchHash))"
proof -
  obtain T B where fold: "foldl visitRef ([], []) (lister_refs l) = (T, B)"
    by (cases "foldl visitRef ([], []) (lister_refs l)")
  define all where "all = sort_Slice swaps releaseLess (releasesOf hs T B)"
  note unf = supportedGoReleases_unfold [OF fold, where hs = hs and swaps = swaps, folded all_def]
  note props = sorted_releases [OF fold all_def]
  have top: "\<exists>r1 r2. rs = [r1, r2]
           \<and> versionOf r1 \<in> set (completeVersions (lister_refs l))
           \<and> versionOf r2 \<in> set (completeVersions (lister_refs l))
           \<and> versionLess (versionOf r2) (versionOf r1)
           \<and> (\<forall>v \<in> set (completeVersions (lister_refs l)).
                 v = versionOf r1 \<or> v = versionOf r2 \<or> versionLess v (versionOf r2))"
    if ok: "supportedGoReleases swaps hs l = Inr rs" for rs
  proof -
    from ok have len: "2 \<le> length all" and rs: "rs = take 2 all"
      unfolding unf by (auto split: option.splits if_splits)
    from take2 [OF len] obtain r1 r2 rest
      where all: "all = r1 # r2 # rest" and tk: "take 2 all = [r1, r2]"
      by blast
    have ne: "versionOf r1 \<noteq> versionOf r2" and
      ne_rest: "\<forall>r\<in>set rest. versionOf r \<noteq> versionOf r2"
      using props(2) unfolding all by (auto simp: image_iff)
    have srt: "\<not> releaseLess r2 r1" "\<forall>r\<in>set rest. \<not> releaseLess r r2"
      using props(4) unfolding all by simp_all
    have 1: "versionLess (versionOf r2) (versionOf r1)"
      using ne srt(1) by (rule not_releaseLess_versionLess)
    have 2: "v = versionOf r1 \<or> v = versionOf r2 \<or> versionLess v (versionOf r2)"
      if "v \<in> set (completeVersions (lister_refs l))" for v
    proof -
      from that obtain r where r: "r \<in> set all" "v = versionOf r"
        unfolding props(1) [symmetric] by blast
      then consider "r = r1" | "r = r2" | "r \<in> set rest"
        unfolding all by auto
      then show ?thesis
      proof cases
        case 3
        then have "versionLess (versionOf r) (versionOf r2)"
          using ne_rest srt(2) not_releaseLess_versionLess [of r2 r] by metis
        then show ?thesis using r by simp
      qed (simp_all add: r)
    qed
    have "versionOf r1 \<in> set (completeVersions (lister_refs l))"
      "versionOf r2 \<in> set (completeVersions (lister_refs l))"
      unfolding props(1) [symmetric] all by simp_all
    with 1 2 rs tk show ?thesis by blast
  qed
  have a: "isError (supportedGoReleases swaps hs l) \<or> (\<exists>r1 r2. supportedGoReleases swaps hs l = Inr [r1, r2])"
  proof (cases "supportedGoReleases swaps hs l")
    case (Inl e)
    then show ?thesis by (simp add: isError_def)
  next
    case (Inr rs)
    with top [OF Inr] show ?thesis by blast
  qed
  have b: "isError (supportedGoReleases swaps hs l)"
    if "length (completeVersions (lister_refs l)) < 2"
    using that unfolding unf props(3) by (simp add: isError_def split: option.splits)
  have c: "\<not> isError (supportedGoReleases swaps hs l)"
    if "lister_err l = None \<and> 2 \<le> length (completeVersions (lister_refs l))"
    using that unfolding unf props(3) by (simp add: isError_def)
  have d: "(versionOf r, Patch r) \<in> set (tagPatches (lister_refs l))
        \<and> (\<forall>p. (versionOf r, p) \<in> set (tagPatches (lister_refs l)) \<longrightarrow> p \<le>s Patch r)"
    if "supportedGoReleases swaps hs l = Inr rs \<and> r \<in> set rs" for rs r
  proof -
    from that have "r \<in> set (take 2 all)"
      unfolding unf by (auto split: option.splits if_splits)
    then have "r \<in> set (sort_Slice swaps releaseLess (releasesOf hs T B))"
      unfolding all_def by (rule in_set_takeD)
    with fold show ?thesis by (rule release_highest_patch)
  qed
  from a b c top have "(isError (supportedGoReleases swaps hs l)
      \<or> (\<exists>r1 r2. supportedGoReleases swaps hs l = Inr [r1, r2]))
   \<and> (length (completeVersions (lister_refs l)) < 2 \<longrightarrow> isError (supportedGoReleases swaps hs l))
   \<and> (lister_err l = None \<and> 2 \<le> length (completeVersions (lister_refs l)) \<longrightarrow>
        \<not> isError (supportedGoReleases swaps hs l))
   \<and> (\<forall>rs. supportedGoReleases swaps hs l = Inr rs \<longrightarrow>
        (\<exists>r1 r2. rs = [r1, r2]
           \<and> versionOf r1 \<in> set (completeVersions (lister_refs l))
           \<and> versionOf r2 \<in> set (completeVersions (lister_refs l))
           \<and> versionLess (versionOf r2) (versionOf r1)
           \<and> (\<forall>v \<in> set (completeVersions (lister_refs l)).
                 v = versionOf r1 \<or> v = versionOf r2 \<or> versionLess v (versionOf r2))))"
    by blast
  moreover have "\<exists>tagHash branchHash.
           (versionOf r, Patch r, TagName r, tagHash) \<in> set (tagRefs (lister_refs l))
           \<and> TagCommit r = hs tagHash
           \<and> (versionOf r, BranchName r, branchHash) \<in> set (branchRefs (lister_refs l))
           \<and> BranchCommit r = hs branchHash"
    if "supportedGoReleases swaps hs l = Inr rs \<and> r \<in> set rs" for rs r
  proof -
    from that have "r \<in> set (take 2 all)"
      unfolding unf by (auto split: option.splits if_splits)
    then have "r \<in> set (sort_Slice swaps releaseLess (releasesOf hs T B))"
      unfolding all_def by (rule in_set_takeD)
    with fold show ?thesis by (rule release_from_refs)
  qed
  ultimately show ?thesis using d by blast
qed

lemmas eval_parse =
  parseTagVersion_def parseReleaseBranchVersion_def version_ParseTag_def
  version_ParseReleaseBranch_def parseNumber_def isDigit_def digitVal_def

lemmas eval_releases =
  supportedGoReleases_def visitRef_def releasesOf_def List.map_filter_simps sort_Slice_def
  releaseLess_def word_sle_eq word_sless_alt eval_parse

lemmas eval_complete =
  completeVersions_def tagVersions_def branchVersions_def tagVersionOf_def
  branchVersionOf_def List.map_filter_simps eval_parse

theorem C2_supportedGoReleases_two_witness:
  "length (completeVersions onePairRefs) < 2
   \<and> isError (supportedGoReleases [] id \<lparr>lister_refs = onePairRefs, lister_err = None\<rparr>)
   \<and> 2 \<le> length (completeVersions fixtureRefs)
   \<and> \<not> isError (supportedGoReleases [] id \<lparr>lister_refs = fixtureRefs, lister_err = None\<rparr>)
   \<and> (\<exists>r1 r2. supportedGoReleases [] id \<lparr>lister_refs = fixtureRefs, lister_err = None\<rparr>
                  = Inr [r1, r2])
   \<and> supportedGoReleases [] id \<lparr>lister_refs = fixtureRefs, lister_err = None\<rparr>
       = Inr [rel112, rel111]
   \<and> tagRefs fixtureRefs
       = [((1, 11), 0, ''go1.11'', ''t11''), ((1, 12), 0, ''go1.12'', ''t12''),
          ((1, 12), 1, ''go1.12.1'', ''t121'')]
   \<and> branchRefs fixtureRefs
       = [((1, 11), ''release-branch.go1.11'', ''b11''),
          ((1, 12), ''release-branch.go1.12'', ''b12'')]
   \<and> (versionOf rel112, Patch rel112, TagName rel112, ''t121'') \<in> set (tagRefs fixtureRefs)
   \<and> (versionOf rel112, BranchName rel112, ''b12'') \<in> set (branchRefs fixtureRefs)"
proof -
  have one: "completeVersions onePairRefs = [(1, 12)]"
    by (simp add: onePairRefs_def eval_complete)
  have two: "completeVersions fixtureRefs = [(1, 11), (1, 12)]"
    by (simp add: fixtureRefs_def eval_complete)
  have res: "supportedGoReleases [] id \<lparr>lister_refs = fixtureRefs, lister_err = None\<rparr>
       = Inr [rel112, rel111]"
    by (simp add: fixtureRefs_def rel112_def rel111_def eval_releases)
  have tr: "tagRefs fixtureRefs
       = [((1, 11), 0, ''go1.11'', ''t11''), ((1, 12), 0, ''go1.12'', ''t12''),
          ((1, 12), 1, ''go1.12.1'', ''t121'')]"
    by (simp add: fixtureRefs_def tagRefs_def tagRefOf_def tagPatchOf_def List.map_filter_simps
        eval_parse)
  have br: "branchRefs fixtureRefs
       = [((1, 11), ''release-branch.go1.11'', ''b11''),
          ((1, 12), ''release-branch.go1.12'', ''b12'')]"
    by (simp add: fixtureRefs_def branchRefs_def branchRefOf_def branchVersionOf_def
        List.map_filter_simps eval_parse)
  have mem: "(versionOf rel112, Patch rel112, TagName rel112, ''t121'') \<in> set (tagRefs fixtureRefs)"
    "(versionOf rel112, BranchName rel112, ''b12'') \<in> set (branchRefs fixtureRefs)"
    unfolding tr br by (simp_all add: versionOf_def rel112_def)
  have main: "length (completeVersions onePairRefs) < 2
   \<and> isError (supportedGoReleases [] id \<lparr>lister_refs = onePairRefs, lister_err = None\<rparr>)
   \<and> 2 \<le> length (completeVersions fixtureRefs)
   \<and> \<not> isError (supportedGoReleases [] id \<lparr>lister_refs = fixtureRefs, lister_err = None\<rparr>)
   \<and> (\<exists>r1 r2. supportedGoReleases [] id \<lparr>lister_refs = fixtureRefs, lister_err = None\<rparr>
                  = Inr [r1, r2])"
    using C2_supportedGoReleases_two [of "[]" id "\<lparr>lister_refs = onePairRefs, lister_err = None\<rparr>"]
      C2_supportedGoReleases_two [of "[]" id "\<lparr>lister_refs = fixtureRefs, lister_err = None\<rparr>"]
    by (auto simp: one two)
  from main res tr br mem show ?thesis by blast
qed

subsection \<open>supportedGoReleases on the fixture\<close>

lemma fixture_releases:
  "supportedGoReleases swaps hs
     \<lparr>lister_refs =
        [(''refs/heads/release-branch.go1.11'', b11),
         (''refs/heads/release-branch.go1.12'', b12),
         (''refs/tags/go1.11'', t11),
         (''refs/tags/go1.12'', t12),
         (''refs/tags/go1.12.1'', t121)],
      lister_err = None\<rparr>
   = Inr [\<lparr>Major = 1, Minor = 12, Patch = 1, TagName = ''go1.12.1'', TagCommit = hs t121,
            BranchName = ''release-branch.go1.12'', BranchCommit = hs b12\<rparr>,
          \<lparr>Major = 1, Minor = 11, Patch = 0, TagName = ''go1.11'', TagCommit = hs t11,
            BranchName = ''release-branch.go1.11'', BranchCommit = hs b11\<rparr>]"
  by (simp add: eval_releases)

lemma fixture_releases_go113:
  "supportedGoReleases swaps hs
     \<lparr>lister_refs =
        [(''refs/heads/release-branch.go1.11'', b11),
         (''refs/heads/release-branch.go1.12'', b12),
         (''refs/tags/go1.11'', t11),
         (''refs/tags/go1.12'', t12),
         (''refs/tags/go1.12.1'', t121),
         (''refs/tags/go1.13'', t13)],
      lister_err = None\<rparr>
   = Inr [\<lparr>Major = 1, Minor = 12, Patch = 1, TagName = ''go1.12.1'', TagCommit = hs t121,
            BranchName = ''release-branch.go1.12'', BranchCommit = hs b12\<rparr>,
          \<lparr>Major = 1, Minor = 11, Patch = 0, TagName = ''go1.11'', TagCommit = hs t11,
            BranchName = ''release-branch.go1.11'', BranchCommit = hs b11\<rparr>]"
  by (simp add: eval_releases)

lemma fixture_one_pair:
  "supportedGoReleases swaps hs
     \<lparr>lister_refs =
        [(''refs/heads/release-branch.go1.12'', b12),
         (''refs/tags/go1.11'', t11),
         (''refs/tags/go1.12'', t12),
         (''refs/tags/go1.12.1'', t121)],
      lister_err = None\<rparr>
   = Inl (Error ''there was a problem finding supported Go releases'')"
  by (simp add: eval_releases)

text \<open>
  C3. On the fixture (tags \<^verbatim>\<open>go1.11\<close>, \<^verbatim>\<open>go1.12\<close>, \<^verbatim>\<open>go1.12.1\<close>; branches
  \<^verbatim>\<open>release-branch.go1.11\<close>, \<^verbatim>\<open>release-branch.go1.12\<close>), with any commit hashes, the
  result is exactly the release 1.12 with patch 1 followed by the release 1.11. A
  further tag \<^verbatim>\<open>go1.13\<close> without a release branch leaves the result as it is. With the
  branch of 1.11 taken away only one complete pair is left, and the call fails.
\<close>

theorem C3_supportedGoReleases_fixture:
  "supportedGoReleases swaps hs
     \<lparr>lister_refs =
        [(''refs/heads/release-branch.go1.11'', b11),
         (''refs/heads/release-branch.go1.12'', b12),
         (''refs/tags/go1.11'', t11),
         (''refs/tags/go1.12'', t12),
         (''refs/tags/go1.12.1'', t121)],
      lister_err = None\<rparr>
   = Inr [\<lparr>Major = 1, Minor = 12, Patch = 1, TagName = ''go1.12.1'', TagCommit = hs t121,
            BranchName = ''release-branch.go1.12'', BranchCommit = hs b12\<rparr>,
          \<lparr>Major = 1, Minor = 11, Patch = 0, TagName = ''go1.11'', TagCommit = hs t11,
            BranchName = ''release-branch.go1.11'', BranchCommit = hs b11\<rparr>]
   \<and> supportedGoReleases swaps hs
     \<lparr>lister_refs =
        [(''refs/heads/release-branch.go1.11'', b11),
         (''refs/heads/release-branch.go1.12'', b12),
         (''refs/tags/go1.11'', t11),
         (''refs/tags/go1.12'', t12),
         (''refs/tags/go1.12.1'', t121),
         (''refs/tags/go1.13'', t13)],
      lister_err = None\<rparr>
   = Inr [\<lparr>Major = 1, Minor = 12, Patch = 1, TagName = ''go1.12.1'', TagCommit = hs t121,
            BranchName = ''release-branch.go1.12'', BranchCommit = hs b12\<rparr>,
          \<lparr>Major = 1, Minor = 11, Patch = 0, TagName = ''go1.11'', TagCommit = hs t11,
            BranchName = ''release-branch.go1.11'', BranchCommit = hs b11\<rparr>]
   \<and> supportedGoReleases swaps hs
     \<lparr>lister_refs =
        [(''refs/heads/release-branch.go1.12'', b12),
         (''refs/tags/go1.11'', t11),
         (''refs/tags/go1.12'', t12),
         (''refs/tags/go1.12.1'', t121)],
      lister_err = None\<rparr>
   = Inl (Error ''there was a problem finding supported Go releases'')"
  using fixture_releases [of swaps hs b11 b12 t11 t12 t121]
    fixture_releases_go113 [of swaps hs b11 b12 t11 t12 t121 t13]
    fixture_one_pair [of swaps hs b12 t11 t12 t121]
  by (intro conjI)

subsection \<open>Facts about the loop and the final sort of GoFindTryWork\<close>

lemma weakOrder_commitLess: "weakOrder commitLess"
proof -
  have "\<not> commitLess b a" if "commitLess a b" for a b
    using that unfolding commitLess_def by (simp add: less_asym)
  moreover have "\<not> commitLess a c" if "\<not> commitLess a b" and "\<not> commitLess b c" for a b c
    using that unfolding commitLess_def not_less by simp
  ultimately show ?thesis
    unfolding weakOrder_def by blast
qed

lemma sorted_commits:
  "sorted (map Commit (sort_Slice workSwaps commitLess ws))"
proof -
  have "sorted_wrt (\<lambda>a b. \<not> commitLess b a) (sort_Slice workSwaps commitLess ws)"
    using weakOrder_commitLess by (rule sorted_sort_Slice)
  then show ?thesis
    by (simp add: sorted_map commitLess_def not_less)
qed

lemma collectWaiting_Inr:
  assumes "collectWaiting body acc cis = Inr ws"
  shows "ws = acc @ List.map_filter (produced body) cis \<and> (\<forall>ci\<in>set cis. \<not> isError (body ci))"
  using assms
proof (induction cis arbitrary: acc)
  case Nil
  then show ?case by (simp add: List.map_filter_simps)
next
  case (Cons ci cis)
  show ?case
  proof (cases "body ci")
    case (Inl e)
    with Cons.prems show ?thesis by simp
  next
    case (Inr r)
    show ?thesis
    proof (cases r)
      case None
      with Inr Cons.prems have "collectWaiting body acc cis = Inr ws" by simp
      moreover have "produced body ci = None"
        using Inr None by (simp add: produced_def)
      ultimately show ?thesis
        using Cons.IH [of acc] Inr by (simp add: List.map_filter_simps isError_def)
    next
      case (Some w)
      with Inr Cons.prems have "collectWaiting body (acc @ [w]) cis = Inr ws" by simp
      moreover have "produced body ci = Some w"
        using Inr Some by (simp add: produced_def)
      ultimately show ?thesis
        using Cons.IH [of "acc @ [w]"] Inr by (simp add: List.map_filter_simps isError_def)
    qed
  qed
qed

lemma collectWaiting_total:
  assumes "\<forall>ci\<in>set cis. \<not> isError (body ci)"
  shows "collectWaiting body acc cis = Inr (acc @ List.map_filter (produced body) cis)"
  using assms
proof (induction cis arbitrary: acc)
  case Nil
  then show ?case by (simp add: List.map_filter_simps)
next
  case (Cons ci cis)
  then obtain r where r: "body ci = Inr r"
    by (cases "body ci") (simp_all add: isError_def)
  have IH: "collectWaiting body acc' cis = Inr (acc' @ List.map_filter (produced body) cis)" for acc'
    using Cons by simp
  have p: "produced body ci = r"
    using r by (simp add: produced_def)
  show ?case
    using r IH by (cases r) (simp_all add: List.map_filter_simps p)
qed

lemma workFor_go:
  assumes "workFor hs c goProj (latest # rest) ci = Inr (Some w)" and "Project w = ''go''"
  shows "GoVersion w =
     [if Branch w = ''master'' then versionPair latest
      else (case parseReleaseBranchVersion (Branch w) of
              Some (major, minor) \<Rightarrow> \<lparr>mm_Major = major, mm_Minor = minor\<rparr>
            | None \<Rightarrow> versionPair latest)]"
  using assms
  by (auto simp: workFor_def tryWorkItem_def firstRelease_def Let_def
           split: option.splits sum.splits if_splits)

subsection \<open>GoFindTryWork: the cache\<close>

lemma GoFindTryWork_miss:
  "\<not> cacheHit c now g \<Longrightarrow>
     GoFindTryWork relSwaps workSwaps hs c now queryChanges g = pollTryWork relSwaps workSwaps hs c now (sumChanges c) queryChanges g"
  by (auto simp: GoFindTryWork_def cacheHit_def Let_def split: option.splits)

lemma GoFindTryWork_hit:
  "cacheHit c now g \<Longrightarrow>
     GoFindTryWork relSwaps workSwaps hs c now queryChanges g = (Inr (the (val (g_tryCache g))), g)"
  by (auto simp: GoFindTryWork_def cacheHit_def Let_def split: option.splits)

lemma pollTryWork_val:
  "pollTryWork relSwaps workSwaps hs c now n queryChanges g = (Inl e, g') \<Longrightarrow>
     val (g_tryCache g') = val (g_tryCache g)"
  by (auto simp: pollTryWork_def Let_def split: sum.splits option.splits)

lemma pollTryWork_lastPoll:
  "pollTryWork relSwaps workSwaps hs c now n queryChanges g = (Inl e, g') \<Longrightarrow> lastPoll (g_tryCache g') = now"
  by (auto simp: pollTryWork_def Let_def split: sum.splits option.splits)

text \<open>
  C4. When a cached result exists and either the current sum of label changes equals the
  stored snapshot or less than 15 seconds have elapsed since the last poll, the call
  returns the cached result and leaves the state as it is; the count of remote queries
  does not move, whatever a query would have returned.
\<close>

theorem C4_cache_hit:
  assumes "val (g_tryCache g) = Some cached"
    and "forNumChanges (g_tryCache g) = sumChanges c
         \<or> now - lastPoll (g_tryCache g) < 15 * 1000000000"
  shows "GoFindTryWork relSwaps workSwaps hs c now queryChanges g = (Inr cached, g)
       \<and> g_queries (snd (GoFindTryWork relSwaps workSwaps hs c now queryChanges g)) = g_queries g"
proof -
  have "cacheHit c now g"
    using assms by (simp add: cacheHit_def maxPollInterval_def)
  then show ?thesis
    using assms(1) by (simp add: GoFindTryWork_hit)
qed

theorem C4_cache_hit_witness:
  "val (g_tryCache globalsHit) = Some \<lparr>Waiting = []\<rparr>
   \<and> forNumChanges (g_tryCache globalsHit) = sumChanges corpus0
   \<and> GoFindTryWork [] [] id corpus0 20000000000 (Inr [change 1]) globalsHit
        = (Inr \<lparr>Waiting = []\<rparr>, globalsHit)
   \<and> (1100 :: int) - lastPoll (g_tryCache globalsStale) < 15 * 1000000000
   \<and> GoFindTryWork [] [] id corpus0 1100 (Inr [change 1]) globalsStale
        = (Inr \<lparr>Waiting = []\<rparr>, globalsStale)"
  using C4_cache_hit [of globalsHit "\<lparr>Waiting = []\<rparr>" corpus0 20000000000 "[]" "[]" id "Inr [change 1]"]
    C4_cache_hit [of globalsStale "\<lparr>Waiting = []\<rparr>" corpus0 1100 "[]" "[]" id "Inr [change 1]"]
  by (simp add: globalsHit_def globalsStale_def sumChanges_def corpus0_def projGo_def)

text \<open>
  C1, as amended. When a poll attempt fails, the error is returned to the caller and the
  cached result is left as it was. The time of the last poll has then already been set
  to the time of the attempt. When it is the remote query that fails, the snapshot of
  the change count is left as it was, and one more query has been counted.
\<close>

theorem C1_failed_poll:
  assumes "\<not> cacheHit c now g"
  shows "(\<forall>err. queryChanges = Inl err \<longrightarrow>
            GoFindTryWork relSwaps workSwaps hs c now queryChanges g =
              (Inl err,
               g\<lparr>g_tryCache := (g_tryCache g)\<lparr>lastPoll := now\<rparr>,
                 g_queries := g_queries g + 1\<rparr>))
       \<and> (\<forall>cis goProj err.
            queryChanges = Inr cis
            \<and> Gerrit_Project c ''go.googlesource.com'' ''go'' = Some goProj
            \<and> supportedGoReleases relSwaps hs (ForeachNonChangeRef goProj) = Inl err \<longrightarrow>
            fst (GoFindTryWork relSwaps workSwaps hs c now queryChanges g) = Inl err)
       \<and> (\<forall>e g'. GoFindTryWork relSwaps workSwaps hs c now queryChanges g = (Inl e, g') \<longrightarrow>
            val (g_tryCache g') = val (g_tryCache g) \<and> lastPoll (g_tryCache g') = now)"
proof (intro conjI allI impI)
  fix err
  assume "queryChanges = Inl err"
  then show "GoFindTryWork relSwaps workSwaps hs c now queryChanges g =
      (Inl err, g\<lparr>g_tryCache := (g_tryCache g)\<lparr>lastPoll := now\<rparr>, g_queries := g_queries g + 1\<rparr>)"
    unfolding GoFindTryWork_miss [OF assms] by (simp add: pollTryWork_def Let_def)
next
  fix cis goProj err
  assume "queryChanges = Inr cis
            \<and> Gerrit_Project c ''go.googlesource.com'' ''go'' = Some goProj
            \<and> supportedGoReleases relSwaps hs (ForeachNonChangeRef goProj) = Inl err"
  then show "fst (GoFindTryWork relSwaps workSwaps hs c now queryChanges g) = Inl err"
    unfolding GoFindTryWork_miss [OF assms] by (simp add: pollTryWork_def Let_def)
next
  fix e g'
  assume r: "GoFindTryWork relSwaps workSwaps hs c now queryChanges g = (Inl e, g')"
  then show "val (g_tryCache g') = val (g_tryCache g)"
    unfolding GoFindTryWork_miss [OF assms] by (rule pollTryWork_val)
  from r show "lastPoll (g_tryCache g') = now"
    unfolding GoFindTryWork_miss [OF assms] by (rule pollTryWork_lastPoll)
qed

theorem C1_failed_poll_witness:
  "\<not> cacheHit corpus0 20000000000 globalsStale
   \<and> GoFindTryWork [] [] id corpus0 20000000000 (Inl (Error ''timeout'')) globalsStale
       = (Inl (Error ''timeout''),
          \<lparr>g_tryCache = \<lparr>forNumChanges = 5, lastPoll = 20000000000, val = Some \<lparr>Waiting = []\<rparr>\<rparr>,
            g_queries = 2\<rparr>)
   \<and> \<not> cacheHit corpusOne 20000000000 globalsStale
   \<and> fst (GoFindTryWork [] [] id corpusOne 20000000000 (Inr []) globalsStale)
       = Inl (Error ''there was a problem finding supported Go releases'')
   \<and> val (g_tryCache (snd (GoFindTryWork [] [] id corpusOne 20000000000 (Inr []) globalsStale)))
       = Some \<lparr>Waiting = []\<rparr>
   \<and> lastPoll (g_tryCache (snd (GoFindTryWork [] [] id corpusOne 20000000000 (Inr []) globalsStale)))
       = 20000000000"
proof -
  have m0: "\<not> cacheHit corpus0 20000000000 globalsStale"
    by (simp add: cacheHit_def globalsStale_def sumChanges_def corpus0_def projGo_def
        maxPollInterval_def)
  have m1: "\<not> cacheHit corpusOne 20000000000 globalsStale"
    by (simp add: cacheHit_def globalsStale_def sumChanges_def corpusOne_def corpus0_def
        projOne_def projGo_def maxPollInterval_def)
  have p1: "Gerrit_Project corpusOne ''go.googlesource.com'' ''go'' = Some projOne"
    by (simp add: corpusOne_def corpus0_def)
  have r1: "supportedGoReleases [] id (ForeachNonChangeRef projOne)
      = Inl (Error ''there was a problem finding supported Go releases'')"
    by (simp add: projOne_def projGo_def onePairRefs_def eval_releases)
  obtain r g' where out: "GoFindTryWork [] [] id corpusOne 20000000000 (Inr []) globalsStale = (r, g')"
    by (cases "GoFindTryWork [] [] id corpusOne 20000000000 (Inr []) globalsStale")
  show ?thesis
    using C1_failed_poll [OF m0, of "Inl (Error ''timeout'')" "[]" "[]" id]
      C1_failed_poll [OF m1, of "Inr []" "[]" "[]" id] m0 m1 p1 r1
    unfolding out by (simp add: globalsStale_def)
qed

text \<open>
  C1 as stated fails: after a failed remote query the time of the last poll has moved,
  and after a failed release resolution the snapshot of the change count has moved too.
\<close>

theorem C1_failed_poll_counterexample:
  "fst (GoFindTryWork [] [] id corpus0 20000000000 (Inl (Error ''timeout'')) globalsStale)
     = Inl (Error ''timeout'')
   \<and> lastPoll (g_tryCache globalsStale) = 100
   \<and> lastPoll (g_tryCache
        (snd (GoFindTryWork [] [] id corpus0 20000000000 (Inl (Error ''timeout'')) globalsStale)))
       = 20000000000
   \<and> fst (GoFindTryWork [] [] id corpusOne 20000000000 (Inr []) globalsStale)
     = Inl (Error ''there was a problem finding supported Go releases'')
   \<and> forNumChanges (g_tryCache globalsStale) = 5
   \<and> forNumChanges (g_tryCache
        (snd (GoFindTryWork [] [] id corpusOne 20000000000 (Inr []) globalsStale))) = 7"
proof -
  have r1: "supportedGoReleases [] id (ForeachNonChangeRef projOne)
      = Inl (Error ''there was a problem finding supported Go releases'')"
    by (simp add: projOne_def projGo_def onePairRefs_def eval_releases)
  have s1: "sumChanges corpusOne = 7"
    by (simp add: sumChanges_def corpusOne_def corpus0_def projOne_def projGo_def)
  have p1: "Gerrit_Project corpusOne ''go.googlesource.com'' ''go'' = Some projOne"
    by (simp add: corpusOne_def corpus0_def)
  have a: "GoFindTryWork [] [] id corpus0 20000000000 (Inl (Error ''timeout'')) globalsStale
      = (Inl (Error ''timeout''),
          \<lparr>g_tryCache = \<lparr>forNumChanges = 5, lastPoll = 20000000000, val = Some \<lparr>Waiting = []\<rparr>\<rparr>,
            g_queries = 2\<rparr>)"
    by (simp add: GoFindTryWork_def pollTryWork_def globalsStale_def sumChanges_def corpus0_def
        projGo_def maxPollInterval_def)
  have b: "GoFindTryWork [] [] id corpusOne 20000000000 (Inr []) globalsStale
       = (Inl (Error ''there was a problem finding supported Go releases''),
          \<lparr>g_tryCache = \<lparr>forNumChanges = 7, lastPoll = 20000000000, val = Some \<lparr>Waiting = []\<rparr>\<rparr>,
            g_queries = 2\<rparr>)"
    by (simp add: GoFindTryWork_def pollTryWork_def globalsStale_def maxPollInterval_def s1 p1 r1)
  show ?thesis
    unfolding a b by (simp add: globalsStale_def)
qed

subsection \<open>GoFindTryWork: the work items of a poll\<close>

lemma supportedGoReleases_pair:
  assumes "supportedGoReleases swaps hs l = Inr rs"
  shows "\<exists>latest previous. rs = [latest, previous]"
proof -
  obtain T B where fold: "foldl visitRef ([], []) (lister_refs l) = (T, B)"
    by (cases "foldl visitRef ([], []) (lister_refs l)")
  from assms have "2 \<le> length (sort_Slice swaps releaseLess (releasesOf hs T B))"
    and "rs = take 2 (sort_Slice swaps releaseLess (releasesOf hs T B))"
    unfolding supportedGoReleases_unfold [OF fold] by (auto split: option.splits if_splits)
  then show ?thesis
    using take2 [of "sort_Slice swaps releaseLess (releasesOf hs T B)"] by auto
qed

lemma supportedGoReleases_swaps:
  "supportedGoReleases swaps hs l = supportedGoReleases swaps' hs l"
proof -
  obtain T B where fold: "foldl visitRef ([], []) (lister_refs l) = (T, B)"
    by (cases "foldl visitRef ([], []) (lister_refs l)")
  have "distinct (map fst T)"
    using foldl_visitRef [OF _ _ fold] by simp
  then have "sort_Slice swaps releaseLess (releasesOf hs T B)
      = sort_Slice swaps' releaseLess (releasesOf hs T B)"
    by (rule supportedGoReleases_order) simp
  then show ?thesis
    unfolding supportedGoReleases_unfold [OF fold] by (simp only:)
qed

lemma pollTryWork_Inr:
  assumes "pollTryWork relSwaps workSwaps hs c now n queryChanges g = (Inr res, g')"
  obtains cis goProj rel waiting where
    "queryChanges = Inr cis"
    "Gerrit_Project c ''go.googlesource.com'' ''go'' = Some goProj"
    "supportedGoReleases relSwaps hs (ForeachNonChangeRef goProj) = Inr rel"
    "collectWaiting (workFor hs c goProj rel) [] cis = Inr waiting"
    "res = \<lparr>Waiting = sort_Slice workSwaps commitLess waiting\<rparr>"
    "val (g_tryCache g') = Some res"
  using assms
  by (auto simp: pollTryWork_def Let_def split: sum.splits option.splits)

lemma produced_Some: "produced body ci = Some w \<Longrightarrow> body ci = Inr (Some w)"
  by (simp add: produced_def split: sum.splits)

text \<open>
  C6. In the work list that a poll returns, every item of the root repository \<^verbatim>\<open>go\<close>
  has a single \<open>GoVersion\<close>: the version of the latest supported release on the
  branch \<^verbatim>\<open>master\<close>, the parsed version on a branch that parses as a release branch,
  and the version of the latest supported release on every other branch.
\<close>

theorem C6_root_repo_version:
  assumes "\<not> cacheHit c now g"
    and "GoFindTryWork relSwaps workSwaps hs c now queryChanges g = (Inr res, g')"
    and "w \<in> set (Waiting res)" and "Project w = ''go''"
  shows "\<exists>goProj latest previous.
           Gerrit_Project c ''go.googlesource.com'' ''go'' = Some goProj
           \<and> supportedGoReleases relSwaps hs (ForeachNonChangeRef goProj) = Inr [latest, previous]
           \<and> GoVersion w =
               [if Branch w = ''master'' then versionPair latest
                else (case parseReleaseBranchVersion (Branch w) of
                        Some (major, minor) \<Rightarrow> \<lparr>mm_Major = major, mm_Minor = minor\<rparr>
                      | None \<Rightarrow> versionPair latest)]"
proof -
  from assms(1,2) have "pollTryWork relSwaps workSwaps hs c now (sumChanges c) queryChanges g = (Inr res, g')"
    by (simp add: GoFindTryWork_miss)
  then obtain cis goProj rel waiting where
    p: "Gerrit_Project c ''go.googlesource.com'' ''go'' = Some goProj"
    and r: "supportedGoReleases relSwaps hs (ForeachNonChangeRef goProj) = Inr rel"
    and l: "collectWaiting (workFor hs c goProj rel) [] cis = Inr waiting"
    and res: "res = \<lparr>Waiting = sort_Slice workSwaps commitLess waiting\<rparr>"
    by (rule pollTryWork_Inr)
  from supportedGoReleases_pair [OF r] obtain latest previous
    where rel: "rel = [latest, previous]" by blast
  have "w \<in> set waiting"
    using assms(3) res by (simp add: set_sort_Slice)
  then have "w \<in> set (List.map_filter (produced (workFor hs c goProj rel)) cis)"
    using collectWaiting_Inr [OF l] by simp
  then obtain ci where "produced (workFor hs c goProj rel) ci = Some w"
    by (auto simp: List.map_filter_def)
  then have "workFor hs c goProj (latest # [previous]) ci = Inr (Some w)"
    unfolding rel by (rule produced_Some)
  from workFor_go [OF this assms(4)] p r rel show ?thesis by blast
qed

subsection \<open>GoFindTryWork: the order of the work list\<close>

lemma pollTryWork_sorted:
  assumes "pollTryWork relSwaps workSwaps hs c now n queryChanges g = (r, g')"
  shows "(\<forall>res. r = Inr res \<longrightarrow> sorted (map Commit (Waiting res)))
       \<and> (cacheSorted g \<longrightarrow> cacheSorted g')"
proof (cases r)
  case (Inl e)
  with assms have "val (g_tryCache g') = val (g_tryCache g)"
    by (simp add: pollTryWork_val)
  with Inl show ?thesis by (simp add: cacheSorted_def)
next
  case (Inr res)
  with assms have "pollTryWork relSwaps workSwaps hs c now n queryChanges g = (Inr res, g')" by simp
  then obtain waiting where
    "res = \<lparr>Waiting = sort_Slice workSwaps commitLess waiting\<rparr>" and "val (g_tryCache g') = Some res"
    by (rule pollTryWork_Inr)
  with Inr show ?thesis by (simp add: cacheSorted_def sorted_commits)
qed

lemma collectWaiting_permutation:
  assumes "collectWaiting body [] cis = Inr ws" and "mset cis = mset cis'"
  shows "\<exists>ws'. collectWaiting body [] cis' = Inr ws' \<and> mset ws' = mset ws"
proof -
  from collectWaiting_Inr [OF assms(1)]
  have ws: "ws = List.map_filter (produced body) cis" and ok: "\<forall>ci\<in>set cis. \<not> isError (body ci)"
    by simp_all
  have "set cis' = set cis"
    using assms(2) [symmetric] by (rule mset_eq_setD)
  with ok have "\<forall>ci\<in>set cis'. \<not> isError (body ci)" by simp
  then have "collectWaiting body [] cis' = Inr ([] @ List.map_filter (produced body) cis')"
    by (rule collectWaiting_total)
  moreover have "mset (List.map_filter (produced body) cis') = mset ws"
    unfolding ws using assms(2) [symmetric] by (rule map_filter_mset_cong)
  ultimately show ?thesis by simp
qed

text \<open>
  C7, as amended. The returned work list is in ascending order of its commit
  identifiers: a poll returns a sorted list, and a cached list is sorted when the cache
  started sorted, which every call preserves. When the commit identifiers of the
  returned items are pairwise distinct, the outcome of a poll does not depend on the
  order in which the remote service returned the changes, nor on the swaps of the
  library's sort.
\<close>

theorem C7_sorted_by_commit:
  "(cacheSorted g \<longrightarrow>
      cacheSorted (snd (GoFindTryWork relSwaps workSwaps hs c now queryChanges g))
      \<and> (\<forall>res. fst (GoFindTryWork relSwaps workSwaps hs c now queryChanges g) = Inr res \<longrightarrow>
            sorted (map Commit (Waiting res))))
   \<and> (\<not> cacheHit c now g \<and> mset cis = mset cis'
       \<and> fst (GoFindTryWork relSwaps workSwaps hs c now (Inr cis) g) = Inr res
       \<and> distinct (map Commit (Waiting res)) \<longrightarrow>
       GoFindTryWork relSwaps' workSwaps' hs c now (Inr cis') g
         = GoFindTryWork relSwaps workSwaps hs c now (Inr cis) g)"
proof (intro conjI impI)
  assume inv: "cacheSorted g"
  obtain r g' where out: "GoFindTryWork relSwaps workSwaps hs c now queryChanges g = (r, g')"
    by (cases "GoFindTryWork relSwaps workSwaps hs c now queryChanges g")
  have "(\<forall>res. r = Inr res \<longrightarrow> sorted (map Commit (Waiting res))) \<and> cacheSorted g'"
  proof (cases "cacheHit c now g")
    case True
    have "GoFindTryWork relSwaps workSwaps hs c now queryChanges g = (Inr (the (val (g_tryCache g))), g)"
      using True by (rule GoFindTryWork_hit)
    then have "r = Inr (the (val (g_tryCache g)))" and "g' = g"
      unfolding out by simp_all
    moreover from True obtain cached where "val (g_tryCache g) = Some cached"
      by (auto simp: cacheHit_def)
    ultimately show ?thesis
      using inv by (simp add: cacheSorted_def)
  next
    case False
    then have "pollTryWork relSwaps workSwaps hs c now (sumChanges c) queryChanges g = (r, g')"
      using out by (simp add: GoFindTryWork_miss)
    from pollTryWork_sorted [OF this] inv show ?thesis by simp
  qed
  then show "cacheSorted (snd (GoFindTryWork relSwaps workSwaps hs c now queryChanges g))"
    and "\<forall>res. fst (GoFindTryWork relSwaps workSwaps hs c now queryChanges g) = Inr res \<longrightarrow>
            sorted (map Commit (Waiting res))"
    unfolding out by simp_all
next
  assume a: "\<not> cacheHit c now g \<and> mset cis = mset cis'
       \<and> fst (GoFindTryWork relSwaps workSwaps hs c now (Inr cis) g) = Inr res
       \<and> distinct (map Commit (Waiting res))"
  then have miss: "\<not> cacheHit c now g" and perm: "mset cis = mset cis'"
    and dist: "distinct (map Commit (Waiting res))" by simp_all
  have "fst (GoFindTryWork relSwaps workSwaps hs c now (Inr cis) g) = Inr res"
    using a by blast
  then have "fst (pollTryWork relSwaps workSwaps hs c now (sumChanges c) (Inr cis) g) = Inr res"
    unfolding GoFindTryWork_miss [OF miss] .
  then obtain g' where "pollTryWork relSwaps workSwaps hs c now (sumChanges c) (Inr cis) g = (Inr res, g')"
    by (cases "pollTryWork relSwaps workSwaps hs c now (sumChanges c) (Inr cis) g") simp
  then obtain cis0 goProj rel waiting where
    q: "Inr cis = (Inr cis0 :: error + ChangeInfo list)" and
    p: "Gerrit_Project c ''go.googlesource.com'' ''go'' = Some goProj"
    and r: "supportedGoReleases relSwaps hs (ForeachNonChangeRef goProj) = Inr rel"
    and l0: "collectWaiting (workFor hs c goProj rel) [] cis0 = Inr waiting"
    and res: "res = \<lparr>Waiting = sort_Slice workSwaps commitLess waiting\<rparr>"
    by (rule pollTryWork_Inr)
  from q l0 have l: "collectWaiting (workFor hs c goProj rel) [] cis = Inr waiting"
    by simp
  from collectWaiting_permutation [OF l perm] obtain waiting' where
    l': "collectWaiting (workFor hs c goProj rel) [] cis' = Inr waiting'"
    and m: "mset waiting' = mset waiting" by blast
  have "mset (map Commit waiting) = mset (map Commit (sort_Slice workSwaps commitLess waiting))"
    by (simp add: mset_sort_Slice)
  from mset_eq_imp_distinct_iff [OF this] have d: "distinct (map Commit waiting)"
    using dist res by simp
  have r': "supportedGoReleases relSwaps' hs (ForeachNonChangeRef goProj) = Inr rel"
    using r supportedGoReleases_swaps [of relSwaps' hs _ relSwaps] by simp
  have "sort_Slice workSwaps commitLess waiting = sort_Slice workSwaps' commitLess waiting'"
  proof (rule sort_Slice_permutation [OF weakOrder_commitLess m [symmetric]])
    fix a b
    assume "a \<in> set waiting" "b \<in> set waiting" "\<not> commitLess a b" "\<not> commitLess b a"
    then show "a = b"
      using distinct_map_inj [OF d, of a b] by (simp add: commitLess_def not_less)
  qed
  then show "GoFindTryWork relSwaps' workSwaps' hs c now (Inr cis') g
      = GoFindTryWork relSwaps workSwaps hs c now (Inr cis) g"
    unfolding GoFindTryWork_miss [OF miss] by (simp add: pollTryWork_def Let_def p r r' l l')
qed

subsection \<open>GoFindTryWork on concrete changes\<close>

lemma releases_projGo:
  "supportedGoReleases [] id (ForeachNonChangeRef projGo) = Inr [rel112, rel111]"
  by (simp add: projGo_def fixtureRefs_def rel112_def rel111_def eval_releases)

lemmas eval_work =
  workFor_def tryWorkItem_def TrimPrefix_def firstRelease_def versionPair_def change_def
  corpus0_def eval_parse

lemma work_master: "workFor id corpus0 projGo [rel112, rel111] (change 1) = Inr (Some itemMaster)"
  by (simp add: eval_work projGo_def clMaster_def itemMaster_def rel112_def)

lemma work_release: "workFor id corpus0 projGo [rel112, rel111] (change 2) = Inr (Some itemRelease)"
  by (simp add: eval_work projGo_def clRelease_def itemRelease_def)

lemma work_dev: "workFor id corpus0 projGo [rel112, rel111] (change 3) = Inr (Some itemDev)"
  by (simp add: eval_work projGo_def clDev_def itemDev_def rel112_def)

lemma miss0: "\<not> cacheHit corpus0 1000 globals0"
  by (simp add: cacheHit_def globals0_def)

lemma poll0:
  assumes "collectWaiting (workFor id corpus0 projGo [rel112, rel111]) [] cis = Inr waiting"
  shows "fst (GoFindTryWork [] [] id corpus0 1000 (Inr cis) globals0)
     = Inr \<lparr>Waiting = sort_Slice [] commitLess waiting\<rparr>"
proof -
  have "Gerrit_Project corpus0 ''go.googlesource.com'' ''go'' = Some projGo"
    by (simp add: corpus0_def)
  then show ?thesis
    unfolding GoFindTryWork_miss [OF miss0]
    by (simp add: pollTryWork_def Let_def releases_projGo assms)
qed

lemma commit_order:
  "commitLess itemDev itemMaster" "\<not> commitLess itemMaster itemDev"
  "\<not> commitLess itemMaster itemRelease" "\<not> commitLess itemRelease itemMaster"
  by (simp_all add: commitLess_def itemDev_def itemMaster_def itemRelease_def less_char_def)

lemma poll_13: "fst (GoFindTryWork [] [] id corpus0 1000 (Inr [change 1, change 3]) globals0)
     = Inr \<lparr>Waiting = [itemDev, itemMaster]\<rparr>"
  by (subst poll0 [of _ "[itemMaster, itemDev]"])
     (simp_all add: work_master work_dev sort_Slice_def commit_order)

lemma poll_12: "fst (GoFindTryWork [] [] id corpus0 1000 (Inr [change 1, change 2]) globals0)
     = Inr \<lparr>Waiting = [itemMaster, itemRelease]\<rparr>"
  by (subst poll0 [of _ "[itemMaster, itemRelease]"])
     (simp_all add: work_master work_release sort_Slice_def commit_order)

lemma poll_21: "fst (GoFindTryWork [] [] id corpus0 1000 (Inr [change 2, change 1]) globals0)
     = Inr \<lparr>Waiting = [itemRelease, itemMaster]\<rparr>"
  by (subst poll0 [of _ "[itemRelease, itemMaster]"])
     (simp_all add: work_master work_release sort_Slice_def commit_order)

theorem C6_root_repo_version_witness:
  "\<not> cacheHit corpus0 1000 globals0
   \<and> fst (GoFindTryWork [] [] id corpus0 1000 (Inr [change 1, change 2]) globals0)
       = Inr \<lparr>Waiting = [itemMaster, itemRelease]\<rparr>
   \<and> itemRelease \<in> set [itemMaster, itemRelease] \<and> Project itemRelease = ''go''
   \<and> (\<exists>goProj latest previous.
         Gerrit_Project corpus0 ''go.googlesource.com'' ''go'' = Some goProj
         \<and> supportedGoReleases [] id (ForeachNonChangeRef goProj) = Inr [latest, previous]
         \<and> GoVersion itemRelease =
             [if Branch itemRelease = ''master'' then versionPair latest
              else (case parseReleaseBranchVersion (Branch itemRelease) of
                      Some (major, minor) \<Rightarrow> \<lparr>mm_Major = major, mm_Minor = minor\<rparr>
                    | None \<Rightarrow> versionPair latest)])"
proof -
  obtain g' where out: "GoFindTryWork [] [] id corpus0 1000 (Inr [change 1, change 2]) globals0
      = (Inr \<lparr>Waiting = [itemMaster, itemRelease]\<rparr>, g')"
    using poll_12 by (cases "GoFindTryWork [] [] id corpus0 1000 (Inr [change 1, change 2]) globals0") simp
  have mem: "itemRelease \<in> set (Waiting \<lparr>Waiting = [itemMaster, itemRelease]\<rparr>)"
    by simp
  have go: "Project itemRelease = ''go''"
    by (simp add: itemRelease_def)
  show ?thesis
    using C6_root_repo_version [OF miss0 out mem go] miss0 poll_12 go by simp
qed

theorem C7_sorted_by_commit_witness:
  "cacheSorted globals0
   \<and> fst (GoFindTryWork [] [] id corpus0 1000 (Inr [change 1, change 3]) globals0)
       = Inr \<lparr>Waiting = [itemDev, itemMaster]\<rparr>
   \<and> sorted (map Commit [itemDev, itemMaster])
   \<and> \<not> cacheHit corpus0 1000 globals0
   \<and> mset [change 1, change 3] = mset [change 3, change 1]
   \<and> distinct (map Commit [itemDev, itemMaster])
   \<and> GoFindTryWork [] [] id corpus0 1000 (Inr [change 3, change 1]) globals0
       = GoFindTryWork [] [] id corpus0 1000 (Inr [change 1, change 3]) globals0"
proof -
  have inv: "cacheSorted globals0"
    by (simp add: cacheSorted_def globals0_def)
  have d: "distinct (map Commit [itemDev, itemMaster])"
    by (simp add: itemDev_def itemMaster_def)
  have m: "mset [change 1, change 3] = mset [change 3, change 1]"
    by simp
  show ?thesis
    using C7_sorted_by_commit [where g = globals0 and hs = id and c = corpus0 and now = 1000
        and queryChanges = "Inr [change 1, change 3]" and cis = "[change 1, change 3]"
        and cis' = "[change 3, change 1]" and res = "\<lparr>Waiting = [itemDev, itemMaster]\<rparr>"
        and relSwaps = "[]" and workSwaps = "[]" and relSwaps' = "[]" and workSwaps' = "[]"]
      inv d m miss0 poll_13
    by simp
qed

text \<open>
  C7 as stated fails: two changes that carry the same commit come out in the order in
  which the remote service returned them.
\<close>

theorem C7_arrival_order_counterexample:
  "mset [change 1, change 2] = mset [change 2, change 1]
   \<and> fst (GoFindTryWork [] [] id corpus0 1000 (Inr [change 1, change 2]) globals0)
       = Inr \<lparr>Waiting = [itemMaster, itemRelease]\<rparr>
   \<and> fst (GoFindTryWork [] [] id corpus0 1000 (Inr [change 2, change 1]) globals0)
       = Inr \<lparr>Waiting = [itemRelease, itemMaster]\<rparr>
   \<and> [itemMaster, itemRelease] \<noteq> [itemRelease, itemMaster]"
  using poll_12 poll_21 by (simp add: itemMaster_def itemRelease_def)

end
